theory Spec2Isabelle
  imports Complex_Main "HOL-Library.Sublist"
begin

section \<open>JavaScript values used by the sources\<close>

text \<open>
  A JavaScript string is modelled as a \<^typ>\<open>string\<close>, one \<^typ>\<open>char\<close> per code unit (the
  code units below 256). A property that may be \<^verbatim>\<open>undefined\<close> is an \<^typ>\<open>'a option\<close>, and a
  thrown value is an \<open>error\<close> carrying its optional \<^verbatim>\<open>message\<close> property.
\<close>

datatype error = Thrown (message: "string option")

text \<open>
  \<^verbatim>\<open>Array.prototype.join(sep)\<close>: the loop of the language definition. It starts from the empty
  string, puts the separator before every element but the first, and appends the empty
  string for an element that is \<^verbatim>\<open>undefined\<close>.
\<close>

fun join_loop :: "string \<Rightarrow> string option list \<Rightarrow> nat \<Rightarrow> string \<Rightarrow> string" where
  "join_loop sep [] k R = R"
| "join_loop sep (element # rest) k R =
     join_loop sep rest (Suc k)
       ((if 0 < k then R @ sep else R) @ (case element of None \<Rightarrow> [] | Some s \<Rightarrow> s))"

definition join :: "string option list \<Rightarrow> string \<Rightarrow> string" where
  "join xs sep = join_loop sep xs 0 []"

text \<open>\<^verbatim>\<open>String.prototype.includes(search)\<close>: does \<open>search\<close> occur somewhere in the string.\<close>

fun str_includes :: "string \<Rightarrow> string \<Rightarrow> bool" where
  "str_includes [] search = (search = [])"
| "str_includes (c # cs) search = (prefix search (c # cs) \<or> str_includes cs search)"


section \<open>The chat route: \<^verbatim>\<open>src/app/api/chat/route.ts\<close>\<close>

subsection \<open>Conversation messages\<close>

text \<open>
  A message of the request body. The handler reads three of its properties: \<^verbatim>\<open>role\<close>,
  \<^verbatim>\<open>content\<close> (flat shape) and \<^verbatim>\<open>parts\<close> (structured shape), the last two possibly absent.
  A part has a \<^verbatim>\<open>type\<close> and possibly a \<^verbatim>\<open>text\<close>.
\<close>

record part =
  part_type :: string
  part_text :: "string option"

record message =
  role :: string
  content :: "string option"
  parts :: "part list option"

text \<open>
  \<^verbatim>\<open>const lastMessage = messages[messages.length - 1];\<close>
  Reading index \<open>-1\<close> of an empty array gives \<^verbatim>\<open>undefined\<close>.
\<close>

definition lastMessage :: "message list \<Rightarrow> message option" where
  "lastMessage messages =
     (if length messages = 0 then None else Some (messages ! (length messages - 1)))"

text \<open>
  \<^verbatim>\<open>
  let userQuery = "";
  if (lastMessage?.parts) {
    const textParts = lastMessage.parts.filter((part: any) => part.type === "text");
    userQuery = textParts.map((part: any) => part.text).join("");
  } else if (lastMessage?.content) {
    userQuery = lastMessage.content;
  }
  \<close>
  An array is truthy also when it is empty; a string is truthy when it is not empty.
\<close>

definition userQuery :: "message list \<Rightarrow> string" where
  "userQuery messages =
     (case lastMessage messages of
        None \<Rightarrow> ''''
      | Some m \<Rightarrow>
          (case parts m of
             Some ps \<Rightarrow>
               (let textParts = filter (\<lambda>p. part_type p = ''text'') ps
                in join (map part_text textParts) '''')
           | None \<Rightarrow>
               (case content m of
                  Some c \<Rightarrow> (if c \<noteq> '''' then c else '''')
                | None \<Rightarrow> '''')))"

subsection \<open>The query as the specification words it\<close>

text \<open>
  The specification's extraction step: the last message whose role is \<open>user\<close>, resolved
  as the flat content string or as the texts of the parts of type \<open>text\<close>, in order; the
  empty string when there is nothing to resolve.
\<close>

definition spec_text_of_part :: "part \<Rightarrow> string" where
  "spec_text_of_part p = (case part_text p of None \<Rightarrow> '''' | Some t \<Rightarrow> t)"

definition spec_resolve :: "message \<Rightarrow> string" where
  "spec_resolve m =
     (case parts m of
        Some ps \<Rightarrow> concat (map spec_text_of_part (filter (\<lambda>p. part_type p = ''text'') ps))
      | None \<Rightarrow> (case content m of Some c \<Rightarrow> c | None \<Rightarrow> ''''))"

definition spec_query :: "message list \<Rightarrow> string" where
  "spec_query messages =
     (case filter (\<lambda>m. role m = ''user'') messages of
        [] \<Rightarrow> ''''
      | u # us \<Rightarrow> spec_resolve (last (u # us)))"


subsection \<open>The collaborators of the handler\<close>

text \<open>
  The handler awaits three remote services and two library calls. Each is a parameter of
  the model: a function from the calls made so far and the arguments of the call to what
  the call returns, \<open>Inl\<close> when it throws (or its promise rejects). The calls made so far
  are kept as a list of events, so that the order and the arguments of the calls can be
  stated. Console output is not modelled, except for the \<^verbatim>\<open>console.error\<close> of the
  \<^verbatim>\<open>catch\<close> block.
\<close>

type_synonym vector = "real list"

record embedding_request =
  model :: string
  input :: string
  encoding_format :: "string option"

text \<open>A document returned by the search; the handler reads its \<^verbatim>\<open>text\<close> property.\<close>

record document =
  doc_text :: "string option"

text \<open>A record as the ingestion script inserts it: \<^verbatim>\<open>{ $vector: vector, text: chunk }\<close>.\<close>

record stored_record =
  dollar_vector :: vector
  record_text :: string

record collection_options =
  dimension :: nat
  metric :: string

record 'mm generation_request =
  gen_model :: string
  system :: string
  gen_messages :: 'mm

datatype 'mm event =
    EmbeddingsCreate embedding_request
  | Find vector nat
  | StreamText "'mm generation_request"
  | ConsoleError string error
  | CreateCollection string collection_options
  | InsertOne stored_record
  | Scrape string
  | ProcessExit nat

datatype 's body = Text string | Stream 's

record 's response =
  status :: nat
  headers :: "(string \<times> string) list"
  body :: "'s body"

text \<open>
  \<open>embeddings_create\<close> returns the \<^verbatim>\<open>embedding\<close> of every element of the response's
  \<^verbatim>\<open>data\<close> array; \<open>collection_find\<close> stands for
  \<^verbatim>\<open>collection.find({}, { sort: { $vector: v }, limit: k }).toArray()\<close>.
\<close>

record ('mm, 's) services =
  embeddings_create :: "'mm event list \<Rightarrow> embedding_request \<Rightarrow> error + vector list"
  collection_find :: "'mm event list \<Rightarrow> vector \<Rightarrow> nat \<Rightarrow> error + document list"
  convertToModelMessages :: "message list \<Rightarrow> error + 'mm"
  streamText :: "'mm event list \<Rightarrow> 'mm generation_request \<Rightarrow> error + 's"
  toTextStreamResponse :: "'s \<Rightarrow> 's response"
  ASTRA_DB_COLLECTION :: string
  createCollection_db :: "'mm event list \<Rightarrow> string \<Rightarrow> collection_options \<Rightarrow> error + unit"
  insertOne :: "'mm event list \<Rightarrow> stored_record \<Rightarrow> error + unit"
  loader_scrape :: "'mm event list \<Rightarrow> string \<Rightarrow> error + string option"
  splitText :: "string \<Rightarrow> error + string list"

text \<open>
  The request: \<^verbatim>\<open>const { messages } = await req.json()\<close> throws on a body that is not a
  JSON object, and the parsed body may lack the \<^verbatim>\<open>messages\<close> property.
\<close>

record json_body =
  messages :: "message list option"

record request =
  req_json :: "error + json_body"

subsection \<open>Context assembly\<close>

text \<open>
  \<^verbatim>\<open>const docContext = searchResults.map((doc: any) => doc.text).join("\n\n") || "";\<close>
\<close>

definition docContext :: "document list \<Rightarrow> string" where
  "docContext searchResults =
     (let joined = join (map doc_text searchResults) [CHR 0x0A, CHR 0x0A]
      in if joined \<noteq> '''' then joined else '''')"

text \<open>The template literal of the system prompt, with the context between its markers.\<close>

definition systemPrompt :: "string \<Rightarrow> string" where
  "systemPrompt ctx = concat
     [''You are an AI assistant who knows everything about Formula One.'', [CHR 0x0A],
      ''Use the below context to augment what you know about Formula One racing.'', [CHR 0x0A],
      ''The context will provide you with the most recent page data from wikipedia,'', [CHR 0x0A],
      ''the official F1 website and others.'', [CHR 0x0A],
      [CHR 0x0A],
      ''If the context doesn't include the information you need answer based on your'', [CHR 0x0A],
      ''existing knowledge and don't mention the source of your information or'', [CHR 0x0A],
      ''what the context does or doesn't include.'', [CHR 0x0A],
      ''Format responses using markdown where applicable and don't return'', [CHR 0x0A],
      ''images.'', [CHR 0x0A],
      [CHR 0x0A],
      ''----------'', [CHR 0x0A],
      [CHR 0x0A],
      ''START CONTEXT'', [CHR 0x0A],
      ctx, [CHR 0x0A],
      ''END CONTEXT'', [CHR 0x0A],
      [CHR 0x0A],
      ''----------'']"

subsection \<open>The handler\<close>

text \<open>
  The body of the \<^verbatim>\<open>try\<close> block, in the order of its statements. Every place where the
  JavaScript can throw is an \<open>Inl\<close>: a rejected \<^verbatim>\<open>req.json()\<close>, reading \<^verbatim>\<open>length\<close> of a
  missing \<^verbatim>\<open>messages\<close>, a rejected embedding call, reading \<^verbatim>\<open>embedding\<close> of a missing
  \<^verbatim>\<open>data[0]\<close>, a rejected search, a throwing \<^verbatim>\<open>convertToModelMessages\<close> (evaluated before
  \<^verbatim>\<open>streamText\<close> is called) and a throwing \<^verbatim>\<open>streamText\<close>. Getting the collection handle
  and turning the stream into a response are taken to succeed. The stream is produced after
  the handler has returned; what happens while it is read is outside the \<^verbatim>\<open>try\<close> block.
\<close>

definition POST_try ::
  "('mm, 's) services \<Rightarrow> request \<Rightarrow> 'mm event list \<Rightarrow> (error + 's response) \<times> 'mm event list"
where
  "POST_try sv req tr =
     (case req_json req of
        Inl e \<Rightarrow> (Inl e, tr)
      | Inr b \<Rightarrow>
     (case messages b of
        None \<Rightarrow> (Inl (Thrown (Some ''Cannot read properties of undefined (reading 'length')'')), tr)
      | Some msgs \<Rightarrow>
     (let q = userQuery msgs;
          rq = \<lparr>model = ''text-embedding-3-small'', input = q, encoding_format = None\<rparr>;
          tr1 = tr @ [EmbeddingsCreate rq]
      in
     (case embeddings_create sv tr rq of
        Inl e \<Rightarrow> (Inl e, tr1)
      | Inr [] \<Rightarrow>
          (Inl (Thrown (Some ''Cannot read properties of undefined (reading 'embedding')'')), tr1)
      | Inr (queryEmbedding # _) \<Rightarrow>
     (let tr2 = tr1 @ [Find queryEmbedding 5]
      in
     (case collection_find sv tr1 queryEmbedding 5 of
        Inl e \<Rightarrow> (Inl e, tr2)
      | Inr searchResults \<Rightarrow>
     (let prompt = systemPrompt (docContext searchResults)
      in
     (case convertToModelMessages sv msgs of
        Inl e \<Rightarrow> (Inl e, tr2)
      | Inr mm \<Rightarrow>
     (let g = \<lparr>gen_model = ''gpt-4'', system = prompt, gen_messages = mm\<rparr>;
          tr3 = tr2 @ [StreamText g]
      in
     (case streamText sv tr2 g of
        Inl e \<Rightarrow> (Inl e, tr3)
      | Inr result \<Rightarrow> (Inr (toTextStreamResponse sv result), tr3)))))))))))"

text \<open>
  The \<^verbatim>\<open>catch\<close> block: the error goes to the console, and the response is
  \<^verbatim>\<open>new Response(JSON.stringify({ error: "Internal server error" }), { status: 500, headers: { "Content-Type": "application/json" } })\<close>.
\<close>

definition internal_server_error :: "'s response" where
  \<open>internal_server_error =
     \<lparr>status = 500,
      headers = [(''Content-Type'', ''application/json'')],
      body = Text ''{"error":"Internal server error"}''\<rparr>\<close>

definition POST ::
  "('mm, 's) services \<Rightarrow> request \<Rightarrow> 'mm event list \<Rightarrow> 's response \<times> 'mm event list"
where
  "POST sv req tr =
     (case POST_try sv req tr of
        (Inr resp, tr') \<Rightarrow> (resp, tr')
      | (Inl e, tr') \<Rightarrow>
          (internal_server_error, tr' @ [ConsoleError ''Error in POST /api/chat:'' e]))"


section \<open>The ingestion script (\<^verbatim>\<open>createCollection\<close>, \<^verbatim>\<open>loadSampleData\<close>, \<^verbatim>\<open>scrapePage\<close>, \<^verbatim>\<open>run\<close>)\<close>

text \<open>
  The seeding script, in the version whose \<^verbatim>\<open>createCollection\<close> catches the error of an
  existing collection and whose \<^verbatim>\<open>scrapePage\<close> cleans the extracted text.
\<close>

subsection \<open>Cleaning the scraped text\<close>

text \<open>
  The characters matched by \<^verbatim>\<open>\s\<close> and removed by \<^verbatim>\<open>trim()\<close>, among the code units below
  256: tab, line feed, vertical tab, form feed, carriage return, space and no-break space.
\<close>

definition is_space :: "char \<Rightarrow> bool" where
  "is_space c = (c \<in> set [CHR 0x09, CHR 0x0A, CHR 0x0B, CHR 0x0C, CHR 0x0D, CHR 0x20, CHR 0xA0])"

text \<open>
  What is left of the text after a match of \<^verbatim>\<open><[^>]*>?\<close> that started at the \<^verbatim>\<open><\<close> just
  before it: the longest run of characters other than \<^verbatim>\<open>>\<close> is consumed, then one \<^verbatim>\<open>>\<close> when
  there is one.
\<close>

definition after_tag :: "string \<Rightarrow> string" where
  "after_tag cs = (case dropWhile (\<lambda>x. x \<noteq> CHR ''>'') cs of [] \<Rightarrow> [] | _ # rest \<Rightarrow> rest)"

lemma length_after_tag [termination_simp]: "length (after_tag cs) \<le> length cs"
  by (induction cs) (simp_all add: after_tag_def split: list.splits if_splits)

text \<open>\<^verbatim>\<open>.replace(/<[^>]*>?/gm, '')\<close>: every match, left to right, is deleted.\<close>

function strip_tags :: "string \<Rightarrow> string" where
  "strip_tags [] = []"
| "strip_tags (c # cs) =
     (if c = CHR ''<'' then strip_tags (after_tag cs) else c # strip_tags cs)"
  by pat_completeness auto
termination
  by (relation "measure length") (simp_all add: length_after_tag le_imp_less_Suc)

text \<open>\<^verbatim>\<open>.replace(/\s+/g, ' ')\<close>: every maximal run of whitespace becomes one space.\<close>

function collapse_whitespace :: "string \<Rightarrow> string" where
  "collapse_whitespace [] = []"
| "collapse_whitespace (c # cs) =
     (if is_space c then CHR '' '' # collapse_whitespace (dropWhile is_space cs)
      else c # collapse_whitespace cs)"
  by pat_completeness auto
termination
  by (relation "measure length") (simp_all add: length_dropWhile_le le_imp_less_Suc)

text \<open>\<^verbatim>\<open>.replace(/\[edit\]/g, '')\<close>: every occurrence of \<^verbatim>\<open>[edit]\<close>, left to right, is deleted.\<close>

function remove_edit :: "string \<Rightarrow> string" where
  "remove_edit [] = []"
| "remove_edit (c # cs) =
     (if prefix ''[edit]'' (c # cs) then remove_edit (drop 6 (c # cs))
      else c # remove_edit cs)"
  by pat_completeness auto
termination
  by (relation "measure length") simp_all

text \<open>\<^verbatim>\<open>.trim()\<close>: whitespace is removed from both ends.\<close>

definition trim :: "string \<Rightarrow> string" where
  "trim s = rev (dropWhile is_space (rev (dropWhile is_space s)))"

text \<open>
  \<^verbatim>\<open>
  return rawContent
    ?.replace(/<[^>]*>?/gm, '') // Remove any remaining HTML tags
    .replace(/\s+/g, ' ')        // Normalize whitespace
    .replace(/\[edit\]/g, '')    // Remove Wikipedia edit links
    .trim() || '';
  \<close>
\<close>

definition cleanUp :: "string option \<Rightarrow> string" where
  "cleanUp rawContent =
     (case rawContent of
        None \<Rightarrow> ''''
      | Some raw \<Rightarrow>
          (let cleaned = trim (remove_edit (collapse_whitespace (strip_tags raw)))
           in if cleaned \<noteq> '''' then cleaned else ''''))"

text \<open>
  \<^verbatim>\<open>scrapePage\<close>: the page is loaded and its main content extracted in the browser (the
  \<open>loader_scrape\<close> collaborator), then cleaned.
\<close>

definition scrapePage ::
  "('mm, 's) services \<Rightarrow> string \<Rightarrow> 'mm event list \<Rightarrow> (error + string) \<times> 'mm event list"
where
  "scrapePage sv url tr =
     (case loader_scrape sv tr url of
        Inl e \<Rightarrow> (Inl e, tr @ [Scrape url])
      | Inr rawContent \<Rightarrow> (Inr (cleanUp rawContent), tr @ [Scrape url]))"

subsection \<open>Creating the collection\<close>

text \<open>
  \<^verbatim>\<open>
  try {
      const res = await db.createCollection(ASTRA_DB_COLLECTION, {
          vector: { dimension: 1536, metric: similarityMetric },
      });
  } catch (error: any) {
      if (error.message?.includes("already exists")) {
          console.log("Collection already exists, skipping creation");
      } else {
          throw error;
      }
  }
  \<close>
\<close>

definition already_exists :: "error \<Rightarrow> bool" where
  "already_exists e =
     (case message e of None \<Rightarrow> False | Some m \<Rightarrow> str_includes m ''already exists'')"

definition createCollection ::
  "('mm, 's) services \<Rightarrow> string \<Rightarrow> 'mm event list \<Rightarrow> (error + unit) \<times> 'mm event list"
where
  "createCollection sv similarityMetric tr =
     (let opts = \<lparr>dimension = 1536, metric = similarityMetric\<rparr>;
          tr1 = tr @ [CreateCollection (ASTRA_DB_COLLECTION sv) opts]
      in
      case createCollection_db sv tr (ASTRA_DB_COLLECTION sv) opts of
        Inr res \<Rightarrow> (Inr (), tr1)
      | Inl e \<Rightarrow> (if already_exists e then (Inr (), tr1) else (Inl e, tr1)))"

subsection \<open>Loading the data\<close>

definition f1Data :: "string list" where
  "f1Data =
     [''https://en.wikipedia.org/wiki/Formula_One'',
      ''https://en.wikipedia.org/wiki/Formula_One_racing'',
      ''https://en.wikipedia.org/wiki/History_of_Formula_One'',
      ''https://en.wikipedia.org/wiki/2024_Formula_One_World_Championship'',
      ''https://en.wikipedia.org/wiki/2025_Formula_One_World_Championship'',
      ''https://en.wikipedia.org/wiki/List_of_Formula_One_World_Drivers%27_Champions'',
      ''https://en.wikipedia.org/wiki/List_of_Formula_One_constructors'',
      ''https://en.wikipedia.org/wiki/Red_Bull_Racing'',
      ''https://en.wikipedia.org/wiki/Scuderia_Ferrari'',
      ''https://en.wikipedia.org/wiki/Mercedes-Benz_in_Formula_One'',
      ''https://en.wikipedia.org/wiki/Aston_Martin_in_Formula_One'',
      ''https://en.wikipedia.org/wiki/McLaren'',
      ''https://en.wikipedia.org/wiki/Max_Verstappen'',
      ''https://en.wikipedia.org/wiki/Lewis_Hamilton'',
      ''https://en.wikipedia.org/wiki/Charles_Leclerc'',
      ''https://en.wikipedia.org/wiki/Lando_Norris'',
      ''https://en.wikipedia.org/wiki/Fernando_Alonso'',
      ''https://en.wikipedia.org/wiki/F1_Academy'',
      ''https://en.wikipedia.org/wiki/Formula_One_car'',
      ''https://en.wikipedia.org/wiki/Formula_One_regulations'']"

text \<open>
  The inner loop of \<^verbatim>\<open>loadSampleData\<close>: each chunk is embedded and inserted with its vector,
  \<^verbatim>\<open>{ $vector: embedding.data[0].embedding, text: chunk }\<close>.
\<close>

fun insert_chunks ::
  "('mm, 's) services \<Rightarrow> string list \<Rightarrow> 'mm event list \<Rightarrow> (error + unit) \<times> 'mm event list"
where
  "insert_chunks sv [] tr = (Inr (), tr)"
| "insert_chunks sv (chunk # chunks) tr =
     (let rq = \<lparr>model = ''text-embedding-3-small'', input = chunk,
                encoding_format = Some ''float''\<rparr>;
          tr1 = tr @ [EmbeddingsCreate rq]
      in
      case embeddings_create sv tr rq of
        Inl e \<Rightarrow> (Inl e, tr1)
      | Inr [] \<Rightarrow>
          (Inl (Thrown (Some ''Cannot read properties of undefined (reading 'embedding')'')), tr1)
      | Inr (vec # _) \<Rightarrow>
          (let doc = \<lparr>dollar_vector = vec, record_text = chunk\<rparr>;
               tr2 = tr1 @ [InsertOne doc]
           in
           case insertOne sv tr1 doc of
             Inl e \<Rightarrow> (Inl e, tr2)
           | Inr _ \<Rightarrow> insert_chunks sv chunks tr2))"

text \<open>The outer loop: each page is scraped, split by the text splitter, and its chunks loaded.\<close>

fun load_urls ::
  "('mm, 's) services \<Rightarrow> string list \<Rightarrow> 'mm event list \<Rightarrow> (error + unit) \<times> 'mm event list"
where
  "load_urls sv [] tr = (Inr (), tr)"
| "load_urls sv (url # urls) tr =
     (case scrapePage sv url tr of
        (Inl e, tr1) \<Rightarrow> (Inl e, tr1)
      | (Inr page_content, tr1) \<Rightarrow>
          (case splitText sv page_content of
             Inl e \<Rightarrow> (Inl e, tr1)
           | Inr chunks \<Rightarrow>
               (case insert_chunks sv chunks tr1 of
                  (Inl e, tr2) \<Rightarrow> (Inl e, tr2)
                | (Inr _, tr2) \<Rightarrow> load_urls sv urls tr2)))"

definition loadSampleData ::
  "('mm, 's) services \<Rightarrow> 'mm event list \<Rightarrow> (error + unit) \<times> 'mm event list"
where
  "loadSampleData sv tr = load_urls sv f1Data tr"

text \<open>
  \<^verbatim>\<open>run\<close>: the collection is created with the default metric, the data loaded, and the
  process exits with 0; an error caught on the way is printed and the process exits with 1.
\<close>

definition run :: "('mm, 's) services \<Rightarrow> 'mm event list \<Rightarrow> 'mm event list" where
  "run sv tr =
     (case createCollection sv ''dot_product'' tr of
        (Inl e, tr1) \<Rightarrow> tr1 @ [ConsoleError ''Error:'' e, ProcessExit 1]
      | (Inr _, tr1) \<Rightarrow>
          (case loadSampleData sv tr1 of
             (Inl e, tr2) \<Rightarrow> tr2 @ [ConsoleError ''Error:'' e, ProcessExit 1]
           | (Inr _, tr2) \<Rightarrow> tr2 @ [ProcessExit 0]))"


section \<open>Statements and examples for the claims\<close>

text \<open>
  The grounding context as the specification words it: the texts of the results joined by
  a blank line, in the order of the results; a result without text contributes the empty
  string.
\<close>

fun spec_join_blank_line :: "string list \<Rightarrow> string" where
  "spec_join_blank_line [] = ''''"
| "spec_join_blank_line [t] = t"
| "spec_join_blank_line (t # u # us) = t @ [CHR 0x0A, CHR 0x0A] @ spec_join_blank_line (u # us)"

definition text_of :: "document \<Rightarrow> string" where
  "text_of d = (case doc_text d of None \<Rightarrow> '''' | Some t \<Rightarrow> t)"

text \<open>
  Example collaborators. The vector store holds no records and no collection; it creates a
  collection at the first request and answers every later request for the same name with an
  error whose message says that the collection already exists.
\<close>

fun is_creation_of :: "string \<Rightarrow> 'mm event \<Rightarrow> bool" where
  "is_creation_of name (CreateCollection n opts) = (n = name)"
| "is_creation_of name _ = False"

definition empty_store :: "(message list, string list) services" where
  "empty_store =
     \<lparr>embeddings_create = (\<lambda>h rq. Inr [replicate 1536 0]),
      collection_find = (\<lambda>h v k. Inr []),
      convertToModelMessages = (\<lambda>ms. Inr ms),
      streamText = (\<lambda>h g. Inr [''Max'', '' Verstappen'']),
      toTextStreamResponse =
        (\<lambda>s. \<lparr>status = 200, headers = [(''Content-Type'', ''text/plain; charset=utf-8'')],
              body = Stream s\<rparr>),
      ASTRA_DB_COLLECTION = ''f1gpt'',
      createCollection_db =
        (\<lambda>h name opts.
           if list_ex (is_creation_of name) h
           then Inl (Thrown (Some ''Collection already exists: f1gpt''))
           else Inr ()),
      insertOne = (\<lambda>h d. Inr ()),
      loader_scrape = (\<lambda>h url. Inr (Some ''Formula One'')),
      splitText = (\<lambda>t. Inr [t])\<rparr>"

text \<open>The same collaborators with a vector store that cannot be reached.\<close>

definition unreachable_store :: "(message list, string list) services" where
  "unreachable_store =
     empty_store\<lparr>collection_find := (\<lambda>h v k. Inl (Thrown (Some ''connect ECONNREFUSED'')))\<rparr>"

definition ask :: request where
  "ask = \<lparr>req_json = Inr \<lparr>messages =
      Some [\<lparr>role = ''user'', content = Some ''Who won 2023?'', parts = None\<rparr>]\<rparr>\<rparr>"


text \<open>The same collaborators with a vector store whose search returns two records.\<close>

definition stocked_store :: "(message list, string list) services" where
  "stocked_store =
     empty_store\<lparr>collection_find :=
       (\<lambda>h v k. Inr [\<lparr>doc_text = Some ''Verstappen won.''\<rparr>,
                      \<lparr>doc_text = Some ''Red Bull.''\<rparr>])\<rparr>"

text \<open>The same collaborators with a vector store that refuses the application token.\<close>

definition unauthorized_store :: "(message list, string list) services" where
  "unauthorized_store =
     empty_store\<lparr>createCollection_db :=
       (\<lambda>h name opts. Inl (Thrown (Some ''Authentication failed'')))\<rparr>"


text \<open>
  Where the vectors come from. A vector comes from the embedding model at a point of the
  run when the call made just before was an embedding call for the model
  \<open>text-embedding-3-small\<close> and the vector is the first embedding of its reply.
\<close>

definition from_embedding_model ::
  "('mm, 's) services \<Rightarrow> 'mm event list \<Rightarrow> vector \<Rightarrow> bool"
where
  "from_embedding_model sv h v =
     (case rev h of
        EmbeddingsCreate rq # before \<Rightarrow>
          model rq = ''text-embedding-3-small'' \<and>
          (case embeddings_create sv (rev before) rq of
             Inr (first # _) \<Rightarrow> first = v
           | _ \<Rightarrow> False)
      | _ \<Rightarrow> False)"

text \<open>
  What the invariant asks of one call, given the calls made before it: an embedding call
  names the model \<open>text-embedding-3-small\<close>, a vector searched or inserted comes from that
  model, and a collection is created with dimension 1536.
\<close>

fun event_ok :: "('mm, 's) services \<Rightarrow> 'mm event list \<Rightarrow> 'mm event \<Rightarrow> bool" where
  "event_ok sv h (EmbeddingsCreate rq) = (model rq = ''text-embedding-3-small'')"
| "event_ok sv h (Find v k) = from_embedding_model sv h v"
| "event_ok sv h (InsertOne d) = from_embedding_model sv h (dollar_vector d)"
| "event_ok sv h (CreateCollection name opts) = (dimension opts = 1536)"
| "event_ok sv h _ = True"

fun events_ok :: "('mm, 's) services \<Rightarrow> 'mm event list \<Rightarrow> 'mm event list \<Rightarrow> bool" where
  "events_ok sv h [] = True"
| "events_ok sv h (ev # evs) = (event_ok sv h ev \<and> events_ok sv (h @ [ev]) evs)"

definition trace_ok :: "('mm, 's) services \<Rightarrow> 'mm event list \<Rightarrow> bool" where
  "trace_ok sv tr = events_ok sv [] tr"

text \<open>
  The embedding provider returns vectors of length \<open>n\<close> for the model
  \<open>text-embedding-3-small\<close>.
\<close>

definition embedding_dimension :: "('mm, 's) services \<Rightarrow> nat \<Rightarrow> bool" where
  "embedding_dimension sv n =
     (\<forall>h rq vs. model rq = ''text-embedding-3-small'' \<longrightarrow>
        embeddings_create sv h rq = Inr vs \<longrightarrow> list_all (\<lambda>v. length v = n) vs)"

text \<open>The vectors searched and inserted have length \<open>n\<close>, the collections dimension \<open>n\<close>.\<close>

fun dimension_ok :: "nat \<Rightarrow> 'mm event \<Rightarrow> bool" where
  "dimension_ok n (Find v k) = (length v = n)"
| "dimension_ok n (InsertOne d) = (length (dollar_vector d) = n)"
| "dimension_ok n (CreateCollection name opts) = (dimension opts = n)"
| "dimension_ok n _ = True"


section \<open>The text splitter\<close>

text \<open>
  The script builds its splitter from the class \<^verbatim>\<open>RecursiveCharacterTextSplitter\<close> of the
  package \<^verbatim>\<open>@langchain/textsplitters\<close>, with \<^verbatim>\<open>chunkSize: 512\<close> and \<^verbatim>\<open>chunkOverlap: 100\<close>,
  and calls its \<^verbatim>\<open>splitText\<close>. The code of the class is not among the sources. What follows
  is the chunker of the specification (section 4.3), each of its steps given as the class
  of the package carries it out with the options the script leaves at their defaults: the
  separators are a blank line, a line feed, a space and the empty string, the separators
  are kept with the pieces, and the length of a piece is its number of characters.
\<close>

text \<open>
  Modelled from the spec: the method \<^verbatim>\<open>joinDocs\<close> of the missing class
  \<^verbatim>\<open>RecursiveCharacterTextSplitter\<close>, which makes one chunk of the pieces accumulated in
  step 3: \<^verbatim>\<open>docs.join(separator).trim()\<close>, and \<^verbatim>\<open>null\<close> when nothing is left.
\<close>

definition joinDocs :: "string list \<Rightarrow> string \<Rightarrow> string option" where
  "joinDocs docs separator =
     (let text = trim (join (map Some docs) separator)
      in if text = '''' then None else Some text)"

text \<open>
  Modelled from the spec: the inner loop of the method \<^verbatim>\<open>mergeSplits\<close> of the missing class,
  which leaves in the current chunk what the next chunk starts with (the overlap of step
  3). Whole pieces are taken from the front of \<^verbatim>\<open>currentDoc\<close> while it holds more than
  \<^verbatim>\<open>chunkOverlap\<close> characters, or while the piece to come, of length \<open>len\<close>, does not fit
  and something is left:
  \<^verbatim>\<open>while (total > chunkOverlap || (total + _len + currentDoc.length * separator.length > chunkSize && total > 0))\<close>.
\<close>

fun shift_docs :: "nat \<Rightarrow> nat \<Rightarrow> string \<Rightarrow> nat \<Rightarrow> string list \<Rightarrow> string list" where
  "shift_docs chunkSize chunkOverlap separator len [] = []"
| "shift_docs chunkSize chunkOverlap separator len (d # ds) =
     (let total = sum_list (map length (d # ds))
      in if chunkOverlap < total \<or>
            (chunkSize < total + len + length (d # ds) * length separator \<and> 0 < total)
         then shift_docs chunkSize chunkOverlap separator len ds
         else d # ds)"

text \<open>
  Modelled from the spec: the loop of the method \<^verbatim>\<open>mergeSplits\<close> of the missing class, step 3
  of the chunker ("greedily accumulating text up to \<^verbatim>\<open>chunkSize\<close>"). \<open>docs\<close> are the chunks
  made so far and \<open>currentDoc\<close> the pieces of the chunk in the making. A piece that does not
  fit behind a chunk in the making closes it: the chunk is made by \<open>joinDocs\<close>, and the
  pieces that \<open>shift_docs\<close> leaves start the next one. After the last piece the chunk in
  the making is closed.
\<close>

fun merge_loop ::
  "nat \<Rightarrow> nat \<Rightarrow> string \<Rightarrow> string list \<Rightarrow> string list \<Rightarrow> string list \<Rightarrow> string list"
where
  "merge_loop chunkSize chunkOverlap separator [] docs currentDoc =
     (case joinDocs currentDoc separator of None \<Rightarrow> docs | Some doc \<Rightarrow> docs @ [doc])"
| "merge_loop chunkSize chunkOverlap separator (d # splits) docs currentDoc =
     (let len = length d;
          total = sum_list (map length currentDoc)
      in if chunkSize < total + len + length currentDoc * length separator \<and> currentDoc \<noteq> []
         then merge_loop chunkSize chunkOverlap separator splits
                (case joinDocs currentDoc separator of None \<Rightarrow> docs | Some doc \<Rightarrow> docs @ [doc])
                (shift_docs chunkSize chunkOverlap separator len currentDoc @ [d])
         else merge_loop chunkSize chunkOverlap separator splits docs (currentDoc @ [d]))"

text \<open>
  Modelled from the spec: the method \<^verbatim>\<open>mergeSplits(splits, separator)\<close> of the missing class,
  the loop started with no chunk made and none in the making.
\<close>

definition mergeSplits :: "nat \<Rightarrow> nat \<Rightarrow> string list \<Rightarrow> string \<Rightarrow> string list" where
  "mergeSplits chunkSize chunkOverlap splits separator =
     merge_loop chunkSize chunkOverlap separator splits [] []"

text \<open>
  Modelled from the spec: the cut of a text at the boundaries of one level (steps 1 and 2),
  in the method \<^verbatim>\<open>splitOnSeparator\<close> of the missing class with the separators kept:
  \<^verbatim>\<open>text.split(new RegExp(`(?=${separator})`))\<close> cuts in front of every occurrence of the
  separator but one at the very start; \<open>piece\<close> holds the characters read since the last
  cut.
\<close>

fun split_before :: "string \<Rightarrow> string \<Rightarrow> string \<Rightarrow> string list" where
  "split_before separator piece [] = [piece]"
| "split_before separator piece (c # cs) =
     (if piece \<noteq> [] \<and> prefix separator (c # cs)
      then piece # split_before separator [c] cs
      else split_before separator (piece @ [c]) cs)"

text \<open>
  Modelled from the spec: the method \<^verbatim>\<open>splitOnSeparator(text, separator)\<close> of the missing
  class. With the empty separator the text is cut into its characters
  (\<^verbatim>\<open>text.split("")\<close>, the raw character boundaries of step 2); the empty pieces are
  dropped (\<^verbatim>\<open>splits.filter((s) => s !== "")\<close>).
\<close>

definition splitOnSeparator :: "string \<Rightarrow> string \<Rightarrow> string list" where
  "splitOnSeparator text separator =
     filter (\<lambda>s. s \<noteq> '''')
       (if separator \<noteq> '''' then split_before separator [] text else map (\<lambda>c. [c]) text)"

text \<open>
  Modelled from the spec: the loop over the pieces in the method \<^verbatim>\<open>_splitText\<close> of the
  missing class. The pieces shorter than \<^verbatim>\<open>chunkSize\<close> are collected in \<open>goodSplits\<close>; a
  piece that is not shorter has the collected ones merged into chunks (with the empty
  string between them, the separators being kept in the pieces) and is itself handed to
  \<open>deeper\<close>, the split at the next level. What is collected at the end is merged.
\<close>

fun split_loop ::
  "nat \<Rightarrow> nat \<Rightarrow> (string \<Rightarrow> string list) \<Rightarrow> string list \<Rightarrow> string list \<Rightarrow> string list"
where
  "split_loop chunkSize chunkOverlap deeper [] goodSplits =
     (if goodSplits \<noteq> [] then mergeSplits chunkSize chunkOverlap goodSplits '''' else [])"
| "split_loop chunkSize chunkOverlap deeper (s # splits) goodSplits =
     (if length s < chunkSize
      then split_loop chunkSize chunkOverlap deeper splits (goodSplits @ [s])
      else (if goodSplits \<noteq> [] then mergeSplits chunkSize chunkOverlap goodSplits '''' else [])
           @ deeper s
           @ split_loop chunkSize chunkOverlap deeper splits [])"

text \<open>
  Modelled from the spec: the method \<^verbatim>\<open>_splitText(text, separators)\<close> of the missing class,
  steps 1 and 2 of the chunker. The separator used is the first of the list that is the
  empty string or occurs in the text, and the last of the list when there is none. A piece
  that is too long is split with the separators after the one used; when the separator
  was not found in the list by an occurrence (\<^verbatim>\<open>newSeparators\<close> is not set) such a piece is a
  chunk as it is.
\<close>

fun splitText_rec :: "nat \<Rightarrow> nat \<Rightarrow> string list \<Rightarrow> string \<Rightarrow> string list" where
  "splitText_rec chunkSize chunkOverlap [] text =
     split_loop chunkSize chunkOverlap (\<lambda>s. [s]) (splitOnSeparator text '''') []"
| "splitText_rec chunkSize chunkOverlap (s # rest) text =
     (if s = '''' then
        split_loop chunkSize chunkOverlap (\<lambda>s. [s]) (splitOnSeparator text '''') []
      else if str_includes text s then
        split_loop chunkSize chunkOverlap
          (\<lambda>piece. splitText_rec chunkSize chunkOverlap rest piece)
          (splitOnSeparator text s) []
      else if rest = [] then
        split_loop chunkSize chunkOverlap (\<lambda>s. [s]) (splitOnSeparator text s) []
      else splitText_rec chunkSize chunkOverlap rest text)"

text \<open>
  Modelled from the spec: the separators of the missing class when none are given, as the
  script does: \<^verbatim>\<open>["\n\n", "\n", " ", ""]\<close>, the paragraph, line, space and character
  boundaries of steps 1 and 2.
\<close>

definition separators :: "string list" where
  "separators = [[CHR 0x0A, CHR 0x0A], [CHR 0x0A], '' '', '''']"

text \<open>
  Modelled from the spec: the splitter of the script,
  \<^verbatim>\<open>new RecursiveCharacterTextSplitter({ chunkSize: 512, chunkOverlap: 100 })\<close>, and its
  method \<^verbatim>\<open>splitText(text)\<close>, which is \<^verbatim>\<open>_splitText(text, this.separators)\<close> in the missing
  class.
\<close>

definition splitter :: "string \<Rightarrow> string list" where
  "splitter text = splitText_rec 512 100 separators text"

text \<open>
  The reconstruction of the specification's invariant: the first chunk, then every later
  chunk without its leading \<open>overlap\<close> characters.
\<close>

definition reconstruct :: "nat \<Rightarrow> string list \<Rightarrow> string" where
  "reconstruct overlap chunks =
     (case chunks of [] \<Rightarrow> '''' | c # cs \<Rightarrow> c @ concat (map (drop overlap) cs))"


section \<open>Properties of the primitives\<close>

lemma join_loop_append:
  "join_loop sep xs k (R @ S) = R @ join_loop sep xs k S"
  by (induction xs arbitrary: k S) simp_all

lemma join_loop_empty_sep:
  "join_loop [] xs k R = R @ concat (map (\<lambda>x. case x of None \<Rightarrow> [] | Some s \<Rightarrow> s) xs)"
  by (induction xs arbitrary: k R) simp_all

lemma join_empty_sep:
  "join xs [] = concat (map (\<lambda>x. case x of None \<Rightarrow> [] | Some s \<Rightarrow> s) xs)"
  by (simp add: join_def join_loop_empty_sep)

lemma lastMessage_snoc: "lastMessage (ms @ [m]) = Some m"
  by (simp add: lastMessage_def)

lemma userQuery_parts:
  "parts m = Some ps \<Longrightarrow>
   userQuery (ms @ [m]) =
     concat (map spec_text_of_part (filter (\<lambda>p. part_type p = ''text'') ps))"
  by (simp add: userQuery_def lastMessage_snoc join_empty_sep spec_text_of_part_def [abs_def]
      comp_def)

lemma userQuery_flat:
  "parts m = None \<Longrightarrow> content m = Some c \<Longrightarrow> userQuery (ms @ [m]) = c"
  by (simp add: userQuery_def lastMessage_snoc)

lemma userQuery_last: "userQuery (ms @ [m]) = spec_resolve m"
  by (cases "parts m"; cases "content m")
     (simp_all add: userQuery_parts userQuery_flat spec_resolve_def,
      simp add: userQuery_def lastMessage_snoc)

lemma userQuery_last_role_user:
  assumes "role m = ''user''"
  shows "userQuery (ms @ [m]) = spec_query (ms @ [m])"
proof -
  let ?us = "filter (\<lambda>m. role m = ''user'') (ms @ [m])"
  from assms have us: "?us = filter (\<lambda>m. role m = ''user'') ms @ [m]"
    by simp
  then obtain u rest where cons: "?us = u # rest"
    by (cases ?us) simp_all
  have "last (u # rest) = m"
    using us cons by (metis last_snoc)
  then have "spec_query (ms @ [m]) = spec_resolve m"
    unfolding spec_query_def cons by simp
  then show ?thesis
    by (simp add: userQuery_last)
qed


section \<open>Query extraction\<close>

text \<open>
  Claim C1: the extracted query is the resolved text of the last message whose role is
  \<open>user\<close>. The handler reads the last message of the array whatever its role (its comment
  says "Get the last user message"): for a conversation that ends with an assistant
  message, \<open>userQuery\<close> is the assistant's text, while the last user message resolves to
  another string. When the last message is the user's, the two agree
  (\<open>userQuery_last_role_user\<close>).
\<close>

theorem last_message_not_user:
  "userQuery
     [\<lparr>role = ''user'', content = Some ''Who won 2023?'', parts = None\<rparr>,
      \<lparr>role = ''assistant'', content = Some ''Max Verstappen.'', parts = None\<rparr>]
     = ''Max Verstappen.''
   \<and> spec_query
     [\<lparr>role = ''user'', content = Some ''Who won 2023?'', parts = None\<rparr>,
      \<lparr>role = ''assistant'', content = Some ''Max Verstappen.'', parts = None\<rparr>]
     = ''Who won 2023?''"
  by (simp add: userQuery_def lastMessage_def spec_query_def spec_resolve_def)

text \<open>
  Claim C8: a flat message with content \<open>Who won 2023?\<close> and a structured message with the
  two text parts \<open>Who \<close> and \<open>won 2023?\<close>, each the last message of a conversation, both
  give the query \<open>Who won 2023?\<close>.
\<close>

theorem message_shape_equivalence:
  "userQuery (ms @ [\<lparr>role = r, content = Some ''Who won 2023?'', parts = None\<rparr>])
     = ''Who won 2023?''
   \<and> userQuery (ms' @ [\<lparr>role = r', content = None,
         parts = Some [\<lparr>part_type = ''text'', part_text = Some ''Who ''\<rparr>,
                       \<lparr>part_type = ''text'', part_text = Some ''won 2023?''\<rparr>]\<rparr>])
     = ''Who won 2023?''"
  by (simp add: userQuery_last spec_resolve_def spec_text_of_part_def)

text \<open>
  Claim C10: when the last message carries both \<open>parts\<close> and \<open>content\<close>, the query is the
  concatenation, in order, of the texts of the parts of type \<open>text\<close>; the content plays no
  role (changing it changes nothing), and the parts of another type contribute nothing
  (dropping them changes nothing).
\<close>

theorem parts_take_precedence:
  "parts m = Some ps \<Longrightarrow> content m = Some c \<Longrightarrow>
     userQuery (ms @ [m])
       = concat (map spec_text_of_part (filter (\<lambda>p. part_type p = ''text'') ps))
   \<and> userQuery (ms @ [m\<lparr>content := c'\<rparr>]) = userQuery (ms @ [m])
   \<and> userQuery (ms @ [m\<lparr>parts := Some (filter (\<lambda>p. part_type p = ''text'') ps)\<rparr>])
       = userQuery (ms @ [m])"
  by (simp add: userQuery_last spec_resolve_def)

theorem parts_take_precedence_witness:
  "userQuery
     [\<lparr>role = ''user'', content = Some ''ignored'',
       parts = Some [\<lparr>part_type = ''text'', part_text = Some ''Who ''\<rparr>,
                     \<lparr>part_type = ''file'', part_text = Some ''photo.png''\<rparr>,
                     \<lparr>part_type = ''text'', part_text = Some ''won?''\<rparr>]\<rparr>]
     = ''Who won?''"
  using parts_take_precedence
    [of "\<lparr>role = ''user'', content = Some ''ignored'',
          parts = Some [\<lparr>part_type = ''text'', part_text = Some ''Who ''\<rparr>,
                        \<lparr>part_type = ''file'', part_text = Some ''photo.png''\<rparr>,
                        \<lparr>part_type = ''text'', part_text = Some ''won?''\<rparr>]\<rparr>"
        "[\<lparr>part_type = ''text'', part_text = Some ''Who ''\<rparr>,
          \<lparr>part_type = ''file'', part_text = Some ''photo.png''\<rparr>,
          \<lparr>part_type = ''text'', part_text = Some ''won?''\<rparr>]"
        "''ignored''" "[]"]
  by (simp add: spec_text_of_part_def)

lemma join_loop_later:
  "0 < k \<Longrightarrow>
   join_loop sep xs k R =
     R @ concat (map (\<lambda>x. sep @ (case x of None \<Rightarrow> [] | Some s \<Rightarrow> s)) xs)"
  by (induction xs arbitrary: k R) simp_all

lemma join_Cons:
  "join (x # xs) sep =
     (case x of None \<Rightarrow> [] | Some s \<Rightarrow> s) @
     concat (map (\<lambda>x. sep @ (case x of None \<Rightarrow> [] | Some s \<Rightarrow> s)) xs)"
  by (simp add: join_def join_loop_later)

lemma spec_join_blank_line_Cons:
  "spec_join_blank_line (t # ts) = t @ concat (map (\<lambda>u. [CHR 0x0A, CHR 0x0A] @ u) ts)"
  by (induction ts arbitrary: t) simp_all

lemma join_blank_line:
  "join (map doc_text ds) [CHR 0x0A, CHR 0x0A] = spec_join_blank_line (map text_of ds)"
proof (cases ds)
  case Nil
  then show ?thesis by (simp add: join_def)
next
  case (Cons d rest)
  then show ?thesis
    by (simp only: list.map join_Cons spec_join_blank_line_Cons)
       (simp add: text_of_def comp_def)
qed

lemma docContext_join: "docContext ds = spec_join_blank_line (map text_of ds)"
  by (simp add: docContext_def Let_def join_blank_line)


text \<open>The handler when every step before the generation call succeeds.\<close>

lemma POST_try_success_path:
  assumes "req_json req = Inr b" and "messages b = Some msgs"
    and "embeddings_create sv tr
           \<lparr>model = ''text-embedding-3-small'', input = userQuery msgs,
            encoding_format = None\<rparr> = Inr (v # vs)"
    and "collection_find sv
           (tr @ [EmbeddingsCreate \<lparr>model = ''text-embedding-3-small'',
                    input = userQuery msgs, encoding_format = None\<rparr>]) v 5 = Inr results"
    and "convertToModelMessages sv msgs = Inr mm"
  shows "POST_try sv req tr =
     (case streamText sv
             (tr @ [EmbeddingsCreate \<lparr>model = ''text-embedding-3-small'',
                      input = userQuery msgs, encoding_format = None\<rparr>, Find v 5])
             \<lparr>gen_model = ''gpt-4'', system = systemPrompt (docContext results),
              gen_messages = mm\<rparr> of
        Inl e \<Rightarrow>
          (Inl e,
           tr @ [EmbeddingsCreate \<lparr>model = ''text-embedding-3-small'',
                   input = userQuery msgs, encoding_format = None\<rparr>, Find v 5,
                 StreamText \<lparr>gen_model = ''gpt-4'', system = systemPrompt (docContext results),
                   gen_messages = mm\<rparr>])
      | Inr result \<Rightarrow>
          (Inr (toTextStreamResponse sv result),
           tr @ [EmbeddingsCreate \<lparr>model = ''text-embedding-3-small'',
                   input = userQuery msgs, encoding_format = None\<rparr>, Find v 5,
                 StreamText \<lparr>gen_model = ''gpt-4'', system = systemPrompt (docContext results),
                   gen_messages = mm\<rparr>]))"
  using assms by (simp add: POST_try_def Let_def split: sum.splits)


section \<open>Context assembly and the empty-context fallback\<close>

text \<open>
  Claim C6: the grounding context that the handler builds is the texts of the search
  results it got, joined by a blank line, in the order returned: whatever the search
  returns, the handler calls \<^verbatim>\<open>streamText\<close>, and only then, with the system prompt built around
  that context, and answers with the text stream when that call returns one. For no results
  the context is the empty string, and the handler goes on in the same way.
\<close>

theorem context_is_joined_texts:
  "docContext searchResults = spec_join_blank_line (map text_of searchResults)
   \<and> docContext [] = ''''
   \<and> (req_json req = Inr b \<and> messages b = Some msgs
        \<and> rq = \<lparr>model = ''text-embedding-3-small'', input = userQuery msgs,
                 encoding_format = None\<rparr>
        \<and> embeddings_create sv tr rq = Inr (v # vs)
        \<and> collection_find sv (tr @ [EmbeddingsCreate rq]) v 5 = Inr results
        \<and> convertToModelMessages sv msgs = Inr mm
        \<and> g = \<lparr>gen_model = ''gpt-4'',
                system = systemPrompt (spec_join_blank_line (map text_of results)),
                gen_messages = mm\<rparr>
      \<longrightarrow> snd (POST_try sv req tr) = tr @ [EmbeddingsCreate rq, Find v 5, StreamText g]
        \<and> StreamText g \<in> set (snd (POST sv req tr))
        \<and> (\<forall>result. streamText sv (tr @ [EmbeddingsCreate rq, Find v 5]) g = Inr result
              \<longrightarrow> fst (POST sv req tr) = toTextStreamResponse sv result)
        \<and> (results = [] \<longrightarrow> system g = systemPrompt ''''))"
proof (intro conjI impI)
  show "docContext searchResults = spec_join_blank_line (map text_of searchResults)"
    by (rule docContext_join)
  show "docContext [] = ''''"
    by (simp add: docContext_join)
next
  assume h: "req_json req = Inr b \<and> messages b = Some msgs
        \<and> rq = \<lparr>model = ''text-embedding-3-small'', input = userQuery msgs,
                 encoding_format = None\<rparr>
        \<and> embeddings_create sv tr rq = Inr (v # vs)
        \<and> collection_find sv (tr @ [EmbeddingsCreate rq]) v 5 = Inr results
        \<and> convertToModelMessages sv msgs = Inr mm
        \<and> g = \<lparr>gen_model = ''gpt-4'',
                system = systemPrompt (spec_join_blank_line (map text_of results)),
                gen_messages = mm\<rparr>"
  from h have body: "req_json req = Inr b" and msgs: "messages b = Some msgs"
    and rq: "rq = \<lparr>model = ''text-embedding-3-small'', input = userQuery msgs,
                   encoding_format = None\<rparr>"
    and embedded: "embeddings_create sv tr rq = Inr (v # vs)"
    and found: "collection_find sv (tr @ [EmbeddingsCreate rq]) v 5 = Inr results"
    and converted: "convertToModelMessages sv msgs = Inr mm"
    and g: "g = \<lparr>gen_model = ''gpt-4'',
                 system = systemPrompt (spec_join_blank_line (map text_of results)),
                 gen_messages = mm\<rparr>"
    by blast+
  have path:
    "POST_try sv req tr =
       (case streamText sv (tr @ [EmbeddingsCreate rq, Find v 5]) g of
          Inl e \<Rightarrow> (Inl e, tr @ [EmbeddingsCreate rq, Find v 5, StreamText g])
        | Inr result \<Rightarrow>
            (Inr (toTextStreamResponse sv result),
             tr @ [EmbeddingsCreate rq, Find v 5, StreamText g]))"
    using POST_try_success_path
      [OF body msgs embedded [unfolded rq] found [unfolded rq] converted]
    unfolding rq g docContext_join .
  show "snd (POST_try sv req tr) = tr @ [EmbeddingsCreate rq, Find v 5, StreamText g]"
    by (simp add: path split: sum.splits)
  show "StreamText g \<in> set (snd (POST sv req tr))"
    by (simp add: POST_def path split: sum.splits)
  show "\<forall>result. streamText sv (tr @ [EmbeddingsCreate rq, Find v 5]) g = Inr result
          \<longrightarrow> fst (POST sv req tr) = toTextStreamResponse sv result"
    by (simp add: POST_def path)
  show "system g = systemPrompt ''''" if "results = []"
    using that by (simp add: g)
qed

text \<open>
  Two runs of the handler: with a store that returns two records the prompt holds both
  texts, a blank line between them; with the empty store it holds the empty context. In
  both the answer is the text stream.
\<close>

theorem context_is_joined_texts_witness:
  "POST stocked_store ask [] =
     (\<lparr>status = 200, headers = [(''Content-Type'', ''text/plain; charset=utf-8'')],
       body = Stream [''Max'', '' Verstappen'']\<rparr>,
      [EmbeddingsCreate \<lparr>model = ''text-embedding-3-small'', input = ''Who won 2023?'',
         encoding_format = None\<rparr>,
       Find (replicate 1536 0) 5,
       StreamText \<lparr>gen_model = ''gpt-4'',
         system = systemPrompt (''Verstappen won.'' @ [CHR 0x0A, CHR 0x0A] @ ''Red Bull.''),
         gen_messages = [\<lparr>role = ''user'', content = Some ''Who won 2023?'', parts = None\<rparr>]\<rparr>])
   \<and> POST empty_store ask [] =
     (\<lparr>status = 200, headers = [(''Content-Type'', ''text/plain; charset=utf-8'')],
       body = Stream [''Max'', '' Verstappen'']\<rparr>,
      [EmbeddingsCreate \<lparr>model = ''text-embedding-3-small'', input = ''Who won 2023?'',
         encoding_format = None\<rparr>,
       Find (replicate 1536 0) 5,
       StreamText \<lparr>gen_model = ''gpt-4'', system = systemPrompt '''',
         gen_messages = [\<lparr>role = ''user'', content = Some ''Who won 2023?'', parts = None\<rparr>]\<rparr>])"
proof -
  let ?msgs = "[\<lparr>role = ''user'', content = Some ''Who won 2023?'', parts = None\<rparr>]"
  let ?rq = "\<lparr>model = ''text-embedding-3-small'', input = ''Who won 2023?'',
               encoding_format = None\<rparr>"
  let ?docs = "[\<lparr>doc_text = Some ''Verstappen won.''\<rparr>, \<lparr>doc_text = Some ''Red Bull.''\<rparr>]"
  let ?g = "\<lambda>ctx. \<lparr>gen_model = ''gpt-4'', system = systemPrompt ctx, gen_messages = ?msgs\<rparr>"
  let ?stream = "\<lparr>status = 200, headers = [(''Content-Type'', ''text/plain; charset=utf-8'')],
       body = Stream [''Max'', '' Verstappen'']\<rparr>"
  have query: "userQuery ?msgs = ''Who won 2023?''"
    by (simp add: userQuery_def lastMessage_def)
  have no_failure: "fst (POST_try sv ask []) = Inr r \<Longrightarrow> snd (POST sv ask []) = snd (POST_try sv ask [])"
    for sv :: "(message list, string list) services" and r
    by (cases "POST_try sv ask []") (simp add: POST_def)
  have stocked: "snd (POST_try stocked_store ask []) =
         [] @ [EmbeddingsCreate ?rq, Find (replicate 1536 0) 5,
               StreamText (?g (spec_join_blank_line (map text_of ?docs)))]
       \<and> fst (POST stocked_store ask []) = ?stream"
    using context_is_joined_texts
      [of _ ask "\<lparr>messages = Some ?msgs\<rparr>" ?msgs ?rq stocked_store "[]" "replicate 1536 0" "[]"
          ?docs ?msgs "?g (spec_join_blank_line (map text_of ?docs))"]
    by (simp add: ask_def stocked_store_def empty_store_def query)
  have empty: "snd (POST_try empty_store ask []) =
         [] @ [EmbeddingsCreate ?rq, Find (replicate 1536 0) 5,
               StreamText (?g (spec_join_blank_line (map text_of [])))]
       \<and> fst (POST empty_store ask []) = ?stream"
    using context_is_joined_texts
      [of _ ask "\<lparr>messages = Some ?msgs\<rparr>" ?msgs ?rq empty_store "[]" "replicate 1536 0" "[]"
          "[]" ?msgs "?g (spec_join_blank_line (map text_of []))"]
    by (simp add: ask_def empty_store_def query)
  have returned: "fst (POST_try stocked_store ask []) = Inr ?stream"
    "fst (POST_try empty_store ask []) = Inr ?stream"
    by (simp_all add: POST_try_def Let_def ask_def stocked_store_def empty_store_def)
  from stocked empty no_failure [OF returned(1)] no_failure [OF returned(2)]
  show ?thesis
    by (simp add: prod_eq_iff text_of_def)
qed


section \<open>Failures of the handler\<close>

text \<open>
  The \<^verbatim>\<open>try\<close> block returns a response only when every step has succeeded; a failure of
  any step is an \<open>Inl\<close>.
\<close>

lemma POST_try_returns_only_if:
  assumes "fst (POST_try sv req tr) = Inr resp"
  shows "\<exists>b msgs v vs results mm result.
           req_json req = Inr b \<and> messages b = Some msgs
         \<and> embeddings_create sv tr
              \<lparr>model = ''text-embedding-3-small'', input = userQuery msgs,
               encoding_format = None\<rparr> = Inr (v # vs)
         \<and> collection_find sv
              (tr @ [EmbeddingsCreate \<lparr>model = ''text-embedding-3-small'',
                       input = userQuery msgs, encoding_format = None\<rparr>]) v 5 = Inr results
         \<and> convertToModelMessages sv msgs = Inr mm
         \<and> streamText sv
              (tr @ [EmbeddingsCreate \<lparr>model = ''text-embedding-3-small'',
                       input = userQuery msgs, encoding_format = None\<rparr>, Find v 5])
              \<lparr>gen_model = ''gpt-4'', system = systemPrompt (docContext results),
               gen_messages = mm\<rparr> = Inr result
         \<and> resp = toTextStreamResponse sv result"
  using assms
  by (auto simp add: POST_try_def Let_def split: sum.splits option.splits list.splits)

text \<open>
  Claim C5: whenever an error is raised inside the handler, at whichever step (parsing the
  request, reading the messages, the embedding call and its reply, the search, the
  conversion of the messages, the generation call), the response has status 500 and the body
  \<^verbatim>\<open>{"error":"Internal server error"}\<close>: a constant, in which nothing of the error appears.
\<close>

theorem POST_failure_is_opaque:
  \<open>(fst (POST_try sv req tr) = Inl e \<or>
    req_json req = Inl e \<or>
    (req_json req = Inr b \<and> messages b = None) \<or>
    (req_json req = Inr b \<and> messages b = Some msgs \<and>
       rq = \<lparr>model = ''text-embedding-3-small'', input = userQuery msgs,
              encoding_format = None\<rparr> \<and>
       (embeddings_create sv tr rq = Inl e \<or>
        embeddings_create sv tr rq = Inr [] \<or>
        (embeddings_create sv tr rq = Inr (v # vs) \<and>
           (collection_find sv (tr @ [EmbeddingsCreate rq]) v 5 = Inl e \<or>
            (collection_find sv (tr @ [EmbeddingsCreate rq]) v 5 = Inr results \<and>
               (convertToModelMessages sv msgs = Inl e \<or>
                (convertToModelMessages sv msgs = Inr mm \<and>
                   streamText sv (tr @ [EmbeddingsCreate rq, Find v 5])
                     \<lparr>gen_model = ''gpt-4'', system = systemPrompt (docContext results),
                      gen_messages = mm\<rparr> = Inl e)))))))) \<Longrightarrow>
   fst (POST sv req tr) =
     \<lparr>status = 500, headers = [(''Content-Type'', ''application/json'')],
      body = Text ''{"error":"Internal server error"}''\<rparr>\<close>
proof -
  assume failure: \<open>fst (POST_try sv req tr) = Inl e \<or>
    req_json req = Inl e \<or>
    (req_json req = Inr b \<and> messages b = None) \<or>
    (req_json req = Inr b \<and> messages b = Some msgs \<and>
       rq = \<lparr>model = ''text-embedding-3-small'', input = userQuery msgs,
              encoding_format = None\<rparr> \<and>
       (embeddings_create sv tr rq = Inl e \<or>
        embeddings_create sv tr rq = Inr [] \<or>
        (embeddings_create sv tr rq = Inr (v # vs) \<and>
           (collection_find sv (tr @ [EmbeddingsCreate rq]) v 5 = Inl e \<or>
            (collection_find sv (tr @ [EmbeddingsCreate rq]) v 5 = Inr results \<and>
               (convertToModelMessages sv msgs = Inl e \<or>
                (convertToModelMessages sv msgs = Inr mm \<and>
                   streamText sv (tr @ [EmbeddingsCreate rq, Find v 5])
                     \<lparr>gen_model = ''gpt-4'', system = systemPrompt (docContext results),
                      gen_messages = mm\<rparr> = Inl e)))))))\<close>
  have "\<exists>e'. fst (POST_try sv req tr) = Inl e'"
  proof (cases "fst (POST_try sv req tr)")
    case (Inl e')
    then show ?thesis by blast
  next
    case (Inr resp)
    from POST_try_returns_only_if [OF Inr] failure Inr show ?thesis
      by auto
  qed
  then obtain e' where "fst (POST_try sv req tr) = Inl e'" ..
  then show ?thesis
    by (cases "POST_try sv req tr") (simp add: POST_def internal_server_error_def)
qed

text \<open>
  The specification's example: the vector store cannot be reached during a query, and the
  answer is the 500 response; the connection error goes to the console only.
\<close>

theorem POST_failure_is_opaque_witness:
  \<open>collection_find unreachable_store
      [EmbeddingsCreate \<lparr>model = ''text-embedding-3-small'', input = ''Who won 2023?'',
         encoding_format = None\<rparr>]
      (replicate 1536 0) 5 = Inl (Thrown (Some ''connect ECONNREFUSED'')) \<and>
   POST unreachable_store ask [] =
     (\<lparr>status = 500, headers = [(''Content-Type'', ''application/json'')],
       body = Text ''{"error":"Internal server error"}''\<rparr>,
      [EmbeddingsCreate \<lparr>model = ''text-embedding-3-small'', input = ''Who won 2023?'',
         encoding_format = None\<rparr>,
       Find (replicate 1536 0) 5,
       ConsoleError ''Error in POST /api/chat:'' (Thrown (Some ''connect ECONNREFUSED''))])\<close>
proof -
  let ?rq = "\<lparr>model = ''text-embedding-3-small'', input = ''Who won 2023?'',
               encoding_format = None\<rparr>"
  let ?msgs = "[\<lparr>role = ''user'', content = Some ''Who won 2023?'', parts = None\<rparr>]"
  let ?e = "Thrown (Some ''connect ECONNREFUSED'')"
  have query: "userQuery ?msgs = ''Who won 2023?''"
    by (simp add: userQuery_def lastMessage_def)
  have unreachable: "collection_find unreachable_store [EmbeddingsCreate ?rq]
      (replicate 1536 0) 5 = Inl ?e"
    by (simp add: unreachable_store_def)
  have embedded: "embeddings_create unreachable_store [] ?rq = Inr [replicate 1536 0]"
    by (simp add: unreachable_store_def empty_store_def)
  have response: \<open>fst (POST unreachable_store ask []) =
     \<lparr>status = 500, headers = [(''Content-Type'', ''application/json'')],
      body = Text ''{"error":"Internal server error"}''\<rparr>\<close>
    using POST_failure_is_opaque
      [of unreachable_store ask "[]" ?e "\<lparr>messages = Some ?msgs\<rparr>" ?msgs ?rq
          "replicate 1536 0" "[]"]
      query unreachable embedded
    by (simp add: ask_def)
  have trace: "snd (POST unreachable_store ask []) =
      [EmbeddingsCreate ?rq, Find (replicate 1536 0) 5,
       ConsoleError ''Error in POST /api/chat:'' ?e]"
    by (simp add: POST_def POST_try_def Let_def unreachable_store_def empty_store_def
        ask_def query)
  from response trace unreachable show ?thesis
    by (simp add: prod_eq_iff)
qed


section \<open>Creating a collection that exists\<close>

lemma createCollection_replies:
  "fst (createCollection sv similarityMetric tr) =
     (case createCollection_db sv tr (ASTRA_DB_COLLECTION sv)
             \<lparr>dimension = 1536, metric = similarityMetric\<rparr> of
        Inr res \<Rightarrow> Inr ()
      | Inl e \<Rightarrow> if already_exists e then Inr () else Inl e)"
  by (simp add: createCollection_def Let_def split: sum.splits)

lemma run_creation_fails:
  assumes "createCollection sv ''dot_product'' tr = (Inl e, tr1)"
  shows "run sv tr = tr1 @ [ConsoleError ''Error:'' e, ProcessExit 1]"
  using assms by (simp add: run_def)

text \<open>
  Claim C7: when the vector store answers the creation with an error whose message contains
  \<open>already exists\<close>, \<open>createCollection\<close> returns normally; every other error of the creation
  is thrown again to the caller, unchanged (and \<open>run\<close>, the caller, then prints it and exits
  with 1). So two calls in a row with the same parameters both return normally as long as
  the store reports no other failure than the existence of the collection.
\<close>

theorem createCollection_already_exists:
  "(createCollection_db sv tr (ASTRA_DB_COLLECTION sv)
        \<lparr>dimension = 1536, metric = similarityMetric\<rparr> = Inl e
      \<and> message e = Some msg \<and> str_includes msg ''already exists''
      \<longrightarrow> fst (createCollection sv similarityMetric tr) = Inr ())
   \<and> (createCollection_db sv tr (ASTRA_DB_COLLECTION sv)
        \<lparr>dimension = 1536, metric = similarityMetric\<rparr> = Inl e
      \<and> \<not> already_exists e
      \<longrightarrow> fst (createCollection sv similarityMetric tr) = Inl e)
   \<and> (createCollection_db sv tr (ASTRA_DB_COLLECTION sv)
        \<lparr>dimension = 1536, metric = ''dot_product''\<rparr> = Inl e
      \<and> \<not> already_exists e
      \<longrightarrow> run sv tr =
            tr @ [CreateCollection (ASTRA_DB_COLLECTION sv)
                    \<lparr>dimension = 1536, metric = ''dot_product''\<rparr>,
                  ConsoleError ''Error:'' e, ProcessExit 1])
   \<and> ((\<forall>h e'. createCollection_db sv h (ASTRA_DB_COLLECTION sv)
                 \<lparr>dimension = 1536, metric = similarityMetric\<rparr> = Inl e'
               \<longrightarrow> already_exists e')
      \<longrightarrow> fst (createCollection sv similarityMetric tr) = Inr ()
        \<and> fst (createCollection sv similarityMetric
                 (snd (createCollection sv similarityMetric tr))) = Inr ())"
proof (intro conjI impI)
  assume "createCollection_db sv tr (ASTRA_DB_COLLECTION sv)
        \<lparr>dimension = 1536, metric = similarityMetric\<rparr> = Inl e
      \<and> message e = Some msg \<and> str_includes msg ''already exists''"
  then show "fst (createCollection sv similarityMetric tr) = Inr ()"
    by (simp add: createCollection_replies already_exists_def)
next
  assume "createCollection_db sv tr (ASTRA_DB_COLLECTION sv)
        \<lparr>dimension = 1536, metric = similarityMetric\<rparr> = Inl e
      \<and> \<not> already_exists e"
  then show "fst (createCollection sv similarityMetric tr) = Inl e"
    by (simp add: createCollection_replies)
next
  assume "createCollection_db sv tr (ASTRA_DB_COLLECTION sv)
        \<lparr>dimension = 1536, metric = ''dot_product''\<rparr> = Inl e
      \<and> \<not> already_exists e"
  then show "run sv tr =
            tr @ [CreateCollection (ASTRA_DB_COLLECTION sv)
                    \<lparr>dimension = 1536, metric = ''dot_product''\<rparr>,
                  ConsoleError ''Error:'' e, ProcessExit 1]"
    by (simp add: run_def createCollection_def Let_def)
next
  assume only: "\<forall>h e'. createCollection_db sv h (ASTRA_DB_COLLECTION sv)
                 \<lparr>dimension = 1536, metric = similarityMetric\<rparr> = Inl e'
               \<longrightarrow> already_exists e'"
  have "fst (createCollection sv similarityMetric h) = Inr ()" for h
    using only by (simp add: createCollection_replies split: sum.splits)
  then show "fst (createCollection sv similarityMetric tr) = Inr ()"
    and "fst (createCollection sv similarityMetric
               (snd (createCollection sv similarityMetric tr))) = Inr ()"
    by simp_all
qed

text \<open>
  The example store at work: the first call creates the collection, the second is answered
  with \<open>Collection already exists: f1gpt\<close> and returns normally all the same; a store that
  refuses the token makes the call, and \<open>run\<close>, fail.
\<close>

lemma empty_store_only_already_exists:
  "\<forall>h e'. createCollection_db empty_store h (ASTRA_DB_COLLECTION empty_store)
     \<lparr>dimension = 1536, metric = ''cosine''\<rparr> = Inl e' \<longrightarrow> already_exists e'"
  by (auto simp add: empty_store_def already_exists_def split: if_splits)

theorem createCollection_already_exists_witness:
  "createCollection empty_store ''cosine'' [] =
     (Inr (), [CreateCollection ''f1gpt'' \<lparr>dimension = 1536, metric = ''cosine''\<rparr>])
   \<and> createCollection_db empty_store
        [CreateCollection ''f1gpt'' \<lparr>dimension = 1536, metric = ''cosine''\<rparr>]
        ''f1gpt'' \<lparr>dimension = 1536, metric = ''cosine''\<rparr>
       = Inl (Thrown (Some ''Collection already exists: f1gpt''))
   \<and> fst (createCollection empty_store ''cosine''
        [CreateCollection ''f1gpt'' \<lparr>dimension = 1536, metric = ''cosine''\<rparr>]) = Inr ()
   \<and> fst (createCollection empty_store ''cosine''
        (snd (createCollection empty_store ''cosine'' []))) = Inr ()
   \<and> fst (createCollection unauthorized_store ''dot_product'' [])
       = Inl (Thrown (Some ''Authentication failed''))
   \<and> run unauthorized_store [] =
       [CreateCollection ''f1gpt'' \<lparr>dimension = 1536, metric = ''dot_product''\<rparr>,
        ConsoleError ''Error:'' (Thrown (Some ''Authentication failed'')), ProcessExit 1]"
proof -
  let ?opts = "\<lparr>dimension = 1536, metric = ''cosine''\<rparr>"
  let ?denied = "Thrown (Some ''Authentication failed'')"
  have first: "createCollection empty_store ''cosine'' [] = (Inr (), [CreateCollection ''f1gpt'' ?opts])"
    by (simp add: createCollection_def empty_store_def Let_def)
  have reply: "createCollection_db empty_store [CreateCollection ''f1gpt'' ?opts]
        (ASTRA_DB_COLLECTION empty_store) ?opts
       = Inl (Thrown (Some ''Collection already exists: f1gpt''))"
    by (simp add: empty_store_def)
  have inc: "str_includes ''Collection already exists: f1gpt'' ''already exists''"
    by simp
  have second: "fst (createCollection empty_store ''cosine'' [CreateCollection ''f1gpt'' ?opts]) = Inr ()"
    using createCollection_already_exists
      [of empty_store "[CreateCollection ''f1gpt'' ?opts]" "''cosine''"
          "Thrown (Some ''Collection already exists: f1gpt'')"
          "''Collection already exists: f1gpt''"]
      reply inc
    by simp
  have twice: "fst (createCollection empty_store ''cosine''
        (snd (createCollection empty_store ''cosine'' []))) = Inr ()"
    using createCollection_already_exists [of empty_store _ "''cosine''"]
      empty_store_only_already_exists
    by blast
  have denied: "createCollection_db unauthorized_store [] (ASTRA_DB_COLLECTION unauthorized_store)
        \<lparr>dimension = 1536, metric = ''dot_product''\<rparr> = Inl ?denied"
    by (simp add: unauthorized_store_def empty_store_def)
  have other: "\<not> already_exists ?denied"
    by (simp add: already_exists_def)
  have third: "fst (createCollection unauthorized_store ''dot_product'' []) = Inl ?denied"
    and fourth: "run unauthorized_store [] =
       [CreateCollection ''f1gpt'' \<lparr>dimension = 1536, metric = ''dot_product''\<rparr>,
        ConsoleError ''Error:'' ?denied, ProcessExit 1]"
    using createCollection_already_exists
      [of unauthorized_store "[]" "''dot_product''" ?denied]
      denied other
    by (simp_all add: unauthorized_store_def empty_store_def)
  from first reply second twice third fourth show ?thesis
    by (simp add: empty_store_def)
qed

section \<open>One embedding model, one dimension\<close>

lemma events_ok_append:
  "events_ok sv h (xs @ ys) = (events_ok sv h xs \<and> events_ok sv (h @ xs) ys)"
  by (induction xs arbitrary: h) simp_all

lemma trace_ok_append:
  "trace_ok sv (tr @ evs) = (trace_ok sv tr \<and> events_ok sv tr evs)"
  by (simp add: trace_ok_def events_ok_append)

lemma first_embedding_iff:
  "(case reply of Inr (first # _) \<Rightarrow> first = v | _ \<Rightarrow> False)
     = (\<exists>rest. reply = Inr (v # rest))"
  by (auto split: sum.splits list.splits)

lemma from_embedding_model_snoc:
  "from_embedding_model sv (tr @ [EmbeddingsCreate rq]) v =
     (model rq = ''text-embedding-3-small'' \<and>
      (\<exists>rest. embeddings_create sv tr rq = Inr (v # rest)))"
  by (simp add: from_embedding_model_def first_embedding_iff)

lemma from_embedding_model_length:
  assumes "embedding_dimension sv n" and "from_embedding_model sv h v"
  shows "length v = n"
proof (cases h rule: rev_cases)
  case Nil
  with assms(2) show ?thesis
    by (simp add: from_embedding_model_def)
next
  case (snoc before ev)
  with assms(2) obtain rq rest
    where m: "model rq = ''text-embedding-3-small''"
      and reply: "embeddings_create sv before rq = Inr (v # rest)"
    by (cases ev) (auto simp add: from_embedding_model_def first_embedding_iff)
  from assms(1) m reply have "list_all (\<lambda>v. length v = n) (v # rest)"
    unfolding embedding_dimension_def by blast
  then show ?thesis by simp
qed

lemma POST_try_trace_ok:
  "trace_ok sv tr \<Longrightarrow> trace_ok sv (snd (POST_try sv req tr))"
  by (simp add: POST_try_def Let_def trace_ok_append from_embedding_model_snoc
      split: sum.splits option.splits list.splits)

lemma POST_trace_ok:
  "trace_ok sv tr \<Longrightarrow> trace_ok sv (snd (POST sv req tr))"
  using POST_try_trace_ok [of sv tr req]
  by (cases "POST_try sv req tr") (simp add: POST_def trace_ok_append split: sum.splits)

lemma insert_chunks_trace_ok:
  "trace_ok sv tr \<Longrightarrow> trace_ok sv (snd (insert_chunks sv chunks tr))"
proof (induction chunks arbitrary: tr)
  case Nil
  then show ?case by simp
next
  case (Cons chunk chunks)
  then show ?case
    by (simp add: Let_def trace_ok_append from_embedding_model_snoc
        split: sum.splits list.splits)
qed

lemma scrapePage_trace_ok:
  "trace_ok sv tr \<Longrightarrow> trace_ok sv (snd (scrapePage sv url tr))"
  by (simp add: scrapePage_def trace_ok_append split: sum.splits)

lemma load_urls_trace_ok:
  "trace_ok sv tr \<Longrightarrow> trace_ok sv (snd (load_urls sv urls tr))"
proof (induction urls arbitrary: tr)
  case Nil
  then show ?case by simp
next
  case (Cons url urls)
  have scraped: "trace_ok sv (snd (scrapePage sv url tr))"
    using Cons.prems by (rule scrapePage_trace_ok)
  show ?case
  proof (cases "scrapePage sv url tr")
    case (Pair r tr1)
    with scraped have tr1: "trace_ok sv tr1" by simp
    show ?thesis
    proof (cases r)
      case (Inl e)
      with Pair tr1 show ?thesis by simp
    next
      case (Inr page)
      show ?thesis
      proof (cases "splitText sv page")
        case (Inl e)
        with Pair Inr tr1 show ?thesis by simp
      next
        case chunks: (Inr chunks)
        have loaded: "trace_ok sv (snd (insert_chunks sv chunks tr1))"
          using tr1 by (rule insert_chunks_trace_ok)
        show ?thesis
        proof (cases "insert_chunks sv chunks tr1")
          case inserted: (Pair r2 tr2)
          with loaded have "trace_ok sv tr2" by simp
          then have "trace_ok sv (snd (load_urls sv urls tr2))"
            by (rule Cons.IH)
          with Pair Inr chunks inserted loaded show ?thesis
            by (simp split: sum.splits)
        qed
      qed
    qed
  qed
qed

lemma createCollection_trace_ok:
  "trace_ok sv tr \<Longrightarrow> trace_ok sv (snd (createCollection sv similarityMetric tr))"
  by (simp add: createCollection_def Let_def trace_ok_append split: sum.splits)

lemma run_trace_ok:
  assumes "trace_ok sv tr"
  shows "trace_ok sv (run sv tr)"
proof (cases "createCollection sv ''dot_product'' tr")
  case (Pair r tr1)
  with createCollection_trace_ok [OF assms, of "''dot_product''"]
  have tr1: "trace_ok sv tr1" by simp
  show ?thesis
  proof (cases r)
    case (Inl e)
    with Pair tr1 show ?thesis
      by (simp add: run_def trace_ok_append)
  next
    case (Inr u)
    have "trace_ok sv (snd (load_urls sv f1Data tr1))"
      using tr1 by (rule load_urls_trace_ok)
    with Pair Inr show ?thesis
      by (cases "load_urls sv f1Data tr1")
         (simp add: run_def loadSampleData_def trace_ok_append split: sum.splits)
  qed
qed

lemma trace_ok_dimension:
  assumes "embedding_dimension sv 1536"
  shows "trace_ok sv tr \<Longrightarrow> list_all (dimension_ok 1536) tr"
proof (induction tr rule: rev_induct)
  case Nil
  then show ?case by simp
next
  case (snoc ev tr)
  then have earlier: "list_all (dimension_ok 1536) tr" and ev: "event_ok sv tr ev"
    by (simp_all add: trace_ok_append)
  from ev have "dimension_ok 1536 ev"
    by (cases ev) (simp_all add: from_embedding_model_length [OF assms])
  with earlier show ?case by simp
qed

text \<open>
  Claim C9: in a run of the handler and in a run of the ingestion script, every embedding
  call names the model \<open>text-embedding-3-small\<close>, every vector searched or inserted is the
  first embedding of the reply to the call made just before it, and the collection is
  created with dimension 1536. So, the provider returning vectors of length 1536 for that
  model, every vector searched or inserted has the length declared at the creation of the
  collection.
\<close>

theorem one_model_one_dimension:
  assumes "trace_ok sv tr" and "embedding_dimension sv 1536"
  shows "trace_ok sv (snd (POST sv req tr)) \<and> trace_ok sv (run sv tr)
       \<and> list_all (dimension_ok 1536) (snd (POST sv req tr))
       \<and> list_all (dimension_ok 1536) (run sv tr)"
  using assms
  by (simp add: POST_trace_ok run_trace_ok trace_ok_dimension)

lemma empty_store_dimension: "embedding_dimension empty_store 1536"
  by (auto simp add: embedding_dimension_def empty_store_def)

theorem one_model_one_dimension_witness:
  "trace_ok empty_store [] \<and> embedding_dimension empty_store 1536
   \<and> snd (POST empty_store ask []) =
       [EmbeddingsCreate \<lparr>model = ''text-embedding-3-small'', input = ''Who won 2023?'',
          encoding_format = None\<rparr>,
        Find (replicate 1536 0) 5,
        StreamText \<lparr>gen_model = ''gpt-4'', system = systemPrompt '''',
          gen_messages = [\<lparr>role = ''user'', content = Some ''Who won 2023?'', parts = None\<rparr>]\<rparr>]
   \<and> list_all (dimension_ok 1536) (snd (POST empty_store ask []))
   \<and> list_all (dimension_ok 1536) (run empty_store [])"
proof -
  have start: "trace_ok empty_store []"
    by (simp add: trace_ok_def)
  have calls: "snd (POST empty_store ask []) =
       [EmbeddingsCreate \<lparr>model = ''text-embedding-3-small'', input = ''Who won 2023?'',
          encoding_format = None\<rparr>,
        Find (replicate 1536 0) 5,
        StreamText \<lparr>gen_model = ''gpt-4'', system = systemPrompt '''',
          gen_messages = [\<lparr>role = ''user'', content = Some ''Who won 2023?'', parts = None\<rparr>]\<rparr>]"
    by (simp add: POST_def POST_try_def Let_def empty_store_def ask_def userQuery_def
        lastMessage_def docContext_def join_def)
  from one_model_one_dimension [OF start empty_store_dimension, of ask] start
    empty_store_dimension calls
  show ?thesis by simp
qed

section \<open>Cleaning the scraped text\<close>

lemma strip_tags_no_open: "CHR ''<'' \<notin> set (strip_tags s)"
  by (induction s rule: strip_tags.induct) simp_all

lemma set_collapse_whitespace:
  "set (collapse_whitespace s) \<subseteq> {c \<in> set s. \<not> is_space c} \<union> {CHR '' ''}"
proof (induction s rule: collapse_whitespace.induct)
  case 1
  then show ?case by simp
next
  case (2 c cs)
  have "set (dropWhile is_space cs) \<subseteq> set cs"
    by (auto dest: set_dropWhileD)
  with 2 show ?case
    by (cases "is_space c") auto
qed

lemma set_remove_edit: "set (remove_edit s) \<subseteq> set s"
proof (induction s rule: remove_edit.induct)
  case 1
  then show ?case by simp
next
  case (2 c cs)
  have "set (drop 5 cs) \<subseteq> set cs"
    by (rule set_drop_subset)
  with 2 show ?case
    by (cases "prefix ''[edit]'' (c # cs)") auto
qed

lemma set_trim: "set (trim s) \<subseteq> set s"
  by (auto simp add: trim_def dest!: set_dropWhileD)

lemma trim_ends:
  assumes "trim s \<noteq> []"
  shows "\<not> is_space (hd (trim s)) \<and> \<not> is_space (last (trim s))"
proof -
  let ?ys = "dropWhile is_space s"
  let ?zs = "dropWhile is_space (rev ?ys)"
  from assms have zs: "?zs \<noteq> []"
    by (simp add: trim_def)
  have ys: "?ys \<noteq> []"
  proof
    assume "?ys = []"
    then have "?zs = []" by (simp only: rev.simps(1) dropWhile.simps(1))
    with zs show False by contradiction
  qed
  have first: "\<not> is_space (hd ?ys)"
    using ys by (rule hd_dropWhile)
  have last_zs: "\<not> is_space (hd ?zs)"
    using zs by (rule hd_dropWhile)
  have "rev ?ys = butlast (rev ?ys) @ [hd ?ys]"
    using ys by (metis append_butlast_last_id last_rev rev_is_Nil_conv)
  then have "?zs = dropWhile is_space (butlast (rev ?ys)) @ [hd ?ys]"
    using first by (metis dropWhile_append3)
  then have "last ?zs = hd ?ys"
    by (metis last_snoc)
  with first last_zs zs show ?thesis
    by (simp add: trim_def hd_rev last_rev)
qed

text \<open>
  What the cleaning does guarantee: no \<^verbatim>\<open><\<close> is left, every whitespace character left is a
  plain space, and the text neither starts nor ends with whitespace.
\<close>

lemma cleanUp_guarantees:
  "CHR ''<'' \<notin> set (cleanUp rawContent)
   \<and> (\<forall>c \<in> set (cleanUp rawContent). is_space c \<longrightarrow> c = CHR '' '')
   \<and> (cleanUp rawContent \<noteq> [] \<longrightarrow>
        \<not> is_space (hd (cleanUp rawContent)) \<and> \<not> is_space (last (cleanUp rawContent)))"
proof (cases rawContent)
  case None
  then show ?thesis by (simp add: cleanUp_def)
next
  case (Some raw)
  let ?t = "trim (remove_edit (collapse_whitespace (strip_tags raw)))"
  have out: "cleanUp rawContent = ?t"
    using Some by (simp add: cleanUp_def Let_def)
  have sub: "set ?t \<subseteq> {c \<in> set (strip_tags raw). \<not> is_space c} \<union> {CHR '' ''}"
    using set_trim set_remove_edit set_collapse_whitespace by (meson subset_trans)
  then have "CHR ''<'' \<notin> set ?t"
    using strip_tags_no_open [of raw] by auto
  moreover have "\<forall>c \<in> set ?t. is_space c \<longrightarrow> c = CHR '' ''"
    using sub by auto
  moreover have "?t \<noteq> [] \<longrightarrow> \<not> is_space (hd ?t) \<and> \<not> is_space (last ?t)"
    using trim_ends by blast
  ultimately show ?thesis
    unfolding out by blast
qed

text \<open>
  Claim C4: the cleaned text contains no tag syntax and no run of more than one whitespace
  character, and is trimmed. The whitespace is collapsed before the \<^verbatim>\<open>[edit]\<close> markers are
  deleted, so a marker that stood between two spaces leaves both of them behind.
\<close>

theorem cleanUp_leaves_double_space:
  "cleanUp (Some ''a [edit] b'') = ''a  b''"
  by (simp add: cleanUp_def trim_def is_space_def after_tag_def)

section \<open>The chunks of the text splitter\<close>

subsection \<open>No chunk is longer than the chunk size\<close>

text \<open>
  Between the pieces of a chunk the splitter puts the empty string, so a chunk is its
  pieces put together and trimmed.
\<close>

lemma dropWhile_none: "\<forall>c \<in> set s. \<not> P c \<Longrightarrow> dropWhile P s = s"
  by (cases s) simp_all

lemma trim_no_space: "\<forall>c \<in> set s. \<not> is_space c \<Longrightarrow> trim s = s"
  by (simp add: trim_def dropWhile_none)

lemma length_trim: "length (trim s) \<le> length s"
proof -
  have "length (trim s) \<le> length (dropWhile is_space s)"
    using length_dropWhile_le [of is_space "rev (dropWhile is_space s)"]
    by (simp add: trim_def)
  also have "\<dots> \<le> length s"
    by (rule length_dropWhile_le)
  finally show ?thesis .
qed

lemma join_Some_empty_sep: "join (map Some docs) '''' = concat docs"
  by (simp add: join_empty_sep comp_def)

lemma joinDocs_empty_sep:
  "joinDocs docs '''' = (if trim (concat docs) = '''' then None else Some (trim (concat docs)))"
  by (simp add: joinDocs_def Let_def join_Some_empty_sep)

lemma length_joinDocs:
  "joinDocs docs '''' = Some doc \<Longrightarrow> length doc \<le> sum_list (map length docs)"
  using length_trim [of "concat docs"]
  by (auto simp add: joinDocs_empty_sep length_concat split: if_splits)

lemma shift_docs_Cons_empty:
  "shift_docs chunkSize chunkOverlap '''' len (d # ds) =
     (if chunkOverlap < sum_list (map length (d # ds))
         \<or> (chunkSize < sum_list (map length (d # ds)) + len \<and> 0 < sum_list (map length (d # ds)))
      then shift_docs chunkSize chunkOverlap '''' len ds else d # ds)"
  by (simp add: Let_def)

lemma shift_docs_fits:
  "len \<le> chunkSize \<Longrightarrow>
   sum_list (map length (shift_docs chunkSize chunkOverlap '''' len docs)) + len \<le> chunkSize"
proof (induction docs)
  case Nil
  then show ?case by simp
next
  case (Cons d ds)
  define total where "total = sum_list (map length (d # ds))"
  have step: "shift_docs chunkSize chunkOverlap '''' len (d # ds) =
     (if chunkOverlap < total \<or> (chunkSize < total + len \<and> 0 < total)
      then shift_docs chunkSize chunkOverlap '''' len ds else d # ds)"
    unfolding total_def by (rule shift_docs_Cons_empty)
  show ?case
  proof (cases "chunkOverlap < total \<or> (chunkSize < total + len \<and> 0 < total)")
    case True
    with step have "shift_docs chunkSize chunkOverlap '''' len (d # ds) =
               shift_docs chunkSize chunkOverlap '''' len ds"
      by (simp only: if_True)
    with Cons show ?thesis by (simp only:)
  next
    case False
    with step have "shift_docs chunkSize chunkOverlap '''' len (d # ds) = d # ds"
      by (simp only: if_False)
    then have "sum_list (map length (shift_docs chunkSize chunkOverlap '''' len (d # ds))) = total"
      by (simp only: total_def)
    moreover from False Cons.prems have "total + len \<le> chunkSize"
      by arith
    ultimately show ?thesis by (simp only:)
  qed
qed

lemma merge_loop_bound:
  "\<forall>d \<in> set splits. length d \<le> chunkSize \<Longrightarrow>
   \<forall>c \<in> set docs. length c \<le> chunkSize \<Longrightarrow>
   sum_list (map length currentDoc) \<le> chunkSize \<Longrightarrow>
   \<forall>c \<in> set (merge_loop chunkSize chunkOverlap '''' splits docs currentDoc).
      length c \<le> chunkSize"
proof (induction splits arbitrary: docs currentDoc)
  case Nil
  then show ?case
    by (auto split: option.splits dest: length_joinDocs)
next
  case (Cons d splits)
  from Cons.prems(1) have d: "length d \<le> chunkSize"
    and rest: "\<forall>x \<in> set splits. length x \<le> chunkSize"
    by simp_all
  show ?case
  proof (cases "chunkSize < sum_list (map length currentDoc) + length d \<and> currentDoc \<noteq> []")
    case True
    let ?docs = "case joinDocs currentDoc '''' of None \<Rightarrow> docs | Some doc \<Rightarrow> docs @ [doc]"
    let ?kept = "shift_docs chunkSize chunkOverlap '''' (length d) currentDoc"
    have docs: "\<forall>c \<in> set ?docs. length c \<le> chunkSize"
      using Cons.prems(2,3) by (auto split: option.splits dest: length_joinDocs)
    have kept: "sum_list (map length (?kept @ [d])) \<le> chunkSize"
      using shift_docs_fits [OF d, of chunkOverlap currentDoc] by simp
    have "merge_loop chunkSize chunkOverlap '''' (d # splits) docs currentDoc =
          merge_loop chunkSize chunkOverlap '''' splits ?docs (?kept @ [d])"
      using True by (simp add: Let_def)
    with Cons.IH [OF rest docs kept] show ?thesis
      by simp
  next
    case False
    then have fits: "sum_list (map length (currentDoc @ [d])) \<le> chunkSize"
      using d by auto
    have "merge_loop chunkSize chunkOverlap '''' (d # splits) docs currentDoc =
          merge_loop chunkSize chunkOverlap '''' splits docs (currentDoc @ [d])"
      using False by (auto simp add: Let_def)
    with Cons.IH [OF rest Cons.prems(2) fits] show ?thesis
      by simp
  qed
qed

lemma mergeSplits_bound:
  "\<forall>d \<in> set splits. length d \<le> chunkSize \<Longrightarrow>
   \<forall>c \<in> set (mergeSplits chunkSize chunkOverlap splits ''''). length c \<le> chunkSize"
  unfolding mergeSplits_def by (rule merge_loop_bound) simp_all

lemma split_loop_bound:
  "\<forall>g \<in> set goodSplits. length g \<le> chunkSize \<Longrightarrow>
   \<forall>s \<in> set splits. \<forall>c \<in> set (deeper s). length c \<le> chunkSize \<Longrightarrow>
   \<forall>c \<in> set (split_loop chunkSize chunkOverlap deeper splits goodSplits).
      length c \<le> chunkSize"
proof (induction splits arbitrary: goodSplits)
  case Nil
  then show ?case
    using mergeSplits_bound [of goodSplits chunkSize chunkOverlap] by simp
next
  case (Cons s splits)
  from Cons.prems(2) have here: "\<forall>c \<in> set (deeper s). length c \<le> chunkSize"
    and later: "\<forall>x \<in> set splits. \<forall>c \<in> set (deeper x). length c \<le> chunkSize"
    by simp_all
  show ?case
  proof (cases "length s < chunkSize")
    case True
    with Cons.prems(1) have "\<forall>g \<in> set (goodSplits @ [s]). length g \<le> chunkSize"
      by auto
    from Cons.IH [OF this later] True show ?thesis by simp
  next
    case False
    have "\<forall>g \<in> set ([]::string list). length g \<le> chunkSize" by simp
    from Cons.IH [OF this later] False here Cons.prems(1)
      mergeSplits_bound [of goodSplits chunkSize chunkOverlap]
    show ?thesis by auto
  qed
qed

lemma splitOnSeparator_chars:
  "splitOnSeparator text '''' = map (\<lambda>c. [c]) text"
  by (simp add: splitOnSeparator_def)

lemma splitText_rec_bound:
  assumes "0 < chunkSize"
  shows "seps = [] \<or> last seps = '''' \<Longrightarrow>
         \<forall>c \<in> set (splitText_rec chunkSize chunkOverlap seps t). length c \<le> chunkSize"
proof (induction seps arbitrary: t)
  case Nil
  have "\<forall>c \<in> set (split_loop chunkSize chunkOverlap (\<lambda>s. [s])
              (splitOnSeparator t '''') []). length c \<le> chunkSize"
    using assms by (intro split_loop_bound) (auto simp add: splitOnSeparator_chars)
  then show ?case by simp
next
  case (Cons s rest)
  have chars: "\<forall>c \<in> set (split_loop chunkSize chunkOverlap (\<lambda>s. [s])
                    (splitOnSeparator t '''') []). length c \<le> chunkSize"
    using assms by (intro split_loop_bound) (auto simp add: splitOnSeparator_chars)
  show ?case
  proof (cases "s = ''''")
    case True
    with chars show ?thesis by simp
  next
    case False
    with Cons.prems have rest: "rest \<noteq> []" "rest = [] \<or> last rest = ''''"
      by (auto split: if_splits)
    have deeper: "\<forall>c \<in> set (splitText_rec chunkSize chunkOverlap rest piece).
        length c \<le> chunkSize" for piece
      using Cons.IH [OF rest(2)] by blast
    have "\<forall>c \<in> set (split_loop chunkSize chunkOverlap
              (\<lambda>piece. splitText_rec chunkSize chunkOverlap rest piece)
              (splitOnSeparator t s) []). length c \<le> chunkSize"
      using deeper by (intro split_loop_bound) auto
    with False rest deeper show ?thesis by simp
  qed
qed

subsection \<open>A text shorter than the chunk size\<close>

text \<open>
  The pieces of a text put together give the text back, whatever the separator; when the
  text is shorter than the chunk size they are all collected and merged into one chunk.
\<close>

lemma concat_split_before: "concat (split_before sep piece t) = piece @ t"
  by (induction t arbitrary: piece) simp_all

lemma concat_filter_nonempty: "concat (filter (\<lambda>s. s \<noteq> []) xs) = concat xs"
  by (induction xs) simp_all

lemma concat_chars: "concat (map (\<lambda>c. [c]) t) = t"
  by (induction t) simp_all

lemma concat_splitOnSeparator: "concat (splitOnSeparator t sep) = t"
  by (simp add: splitOnSeparator_def concat_filter_nonempty concat_split_before concat_chars)

lemma length_member_concat: "s \<in> set xs \<Longrightarrow> length s \<le> length (concat xs)"
  by (induction xs) auto

lemma merge_loop_fits:
  "sum_list (map length currentDoc) + sum_list (map length splits) \<le> chunkSize \<Longrightarrow>
   merge_loop chunkSize chunkOverlap '''' splits docs currentDoc =
     (case joinDocs (currentDoc @ splits) '''' of None \<Rightarrow> docs | Some doc \<Rightarrow> docs @ [doc])"
proof (induction splits arbitrary: currentDoc)
  case Nil
  then show ?case by simp
next
  case (Cons d splits)
  then have "\<not> chunkSize < sum_list (map length currentDoc) + length d"
    by simp
  then have "merge_loop chunkSize chunkOverlap '''' (d # splits) docs currentDoc =
             merge_loop chunkSize chunkOverlap '''' splits docs (currentDoc @ [d])"
    by (simp add: Let_def)
  also have "\<dots> = (case joinDocs ((currentDoc @ [d]) @ splits) '''' of
                       None \<Rightarrow> docs | Some doc \<Rightarrow> docs @ [doc])"
    using Cons.prems by (intro Cons.IH) simp
  finally show ?case by simp
qed

lemma split_loop_all_good:
  "\<forall>s \<in> set splits. length s < chunkSize \<Longrightarrow>
   split_loop chunkSize chunkOverlap deeper splits goodSplits =
     (if goodSplits @ splits \<noteq> [] then mergeSplits chunkSize chunkOverlap (goodSplits @ splits) ''''
      else [])"
  by (induction splits arbitrary: goodSplits) simp_all

lemma split_loop_short:
  assumes short: "length t < chunkSize" and whole: "concat splits = t"
  shows "split_loop chunkSize chunkOverlap deeper splits [] =
           (if trim t = '''' then [] else [trim t])"
proof -
  have good: "\<forall>s \<in> set splits. length s < chunkSize"
    using length_member_concat [of _ splits] short whole by fastforce
  have fits: "sum_list (map length ([]::string list)) + sum_list (map length splits) \<le> chunkSize"
    using short whole length_concat [of splits] by simp
  have "split_loop chunkSize chunkOverlap deeper splits [] =
          (if splits \<noteq> [] then mergeSplits chunkSize chunkOverlap splits '''' else [])"
    using split_loop_all_good [OF good, of chunkOverlap deeper "[]"] by simp
  also have "\<dots> = (if splits \<noteq> [] then
        (case joinDocs splits '''' of None \<Rightarrow> [] | Some doc \<Rightarrow> [doc]) else [])"
    using merge_loop_fits [OF fits, of chunkOverlap "[]"] by (simp add: mergeSplits_def split: option.splits)
  also have "\<dots> = (if trim t = '''' then [] else [trim t])"
    using whole by (auto simp add: joinDocs_empty_sep trim_def)
  finally show ?thesis .
qed

lemma splitText_rec_short:
  "length t < chunkSize \<Longrightarrow>
   splitText_rec chunkSize chunkOverlap seps t = (if trim t = '''' then [] else [trim t])"
proof (induction seps)
  case Nil
  then show ?case
    using split_loop_short [OF _ concat_splitOnSeparator] by simp
next
  case (Cons s rest)
  then show ?case
    using split_loop_short [OF _ concat_splitOnSeparator] by simp
qed

subsection \<open>A text without whitespace\<close>

text \<open>
  A text without whitespace holds none of the separators but the empty one: it is cut into
  its characters, \<open>chunkSize\<close> of them make a chunk, and the last \<open>chunkOverlap\<close> of them
  start the next one.
\<close>

lemma not_includes_absent: "c \<notin> set t \<Longrightarrow> \<not> str_includes t (c # s)"
  by (induction t) auto

lemma sum_length_chars:
  "sum_list (map length (map (\<lambda>c. [c]) t)) = length t"
  "sum_list (map (length \<circ> (\<lambda>c. [c])) t) = length t"
  by (induction t) simp_all

lemma joinDocs_chars:
  "cur \<noteq> [] \<Longrightarrow> \<forall>c \<in> set cur. \<not> is_space c \<Longrightarrow>
   joinDocs (map (\<lambda>c. [c]) cur) '''' = Some cur"
  by (simp add: joinDocs_empty_sep concat_chars trim_no_space)

lemma shift_docs_chars:
  "chunkOverlap < chunkSize \<Longrightarrow> length cur \<le> chunkSize \<Longrightarrow>
   shift_docs chunkSize chunkOverlap '''' 1 (map (\<lambda>c. [c]) cur) =
     map (\<lambda>c. [c]) (drop (length cur - chunkOverlap) cur)"
proof (induction cur)
  case Nil
  then show ?case by simp
next
  case (Cons x cur)
  show ?case
  proof (cases "chunkOverlap < Suc (length cur)")
    case True
    then have "shift_docs chunkSize chunkOverlap '''' 1 (map (\<lambda>c. [c]) (x # cur)) =
               shift_docs chunkSize chunkOverlap '''' 1 (map (\<lambda>c. [c]) cur)"
      by (simp add: Let_def sum_length_chars)
    also have "\<dots> = map (\<lambda>c. [c]) (drop (length cur - chunkOverlap) cur)"
      using Cons.prems by (intro Cons.IH) simp_all
    also from True have "drop (length cur - chunkOverlap) cur =
               drop (length (x # cur) - chunkOverlap) (x # cur)"
      by (simp add: Suc_diff_le)
    finally show ?thesis .
  next
    case False
    with Cons.prems show ?thesis
      by (simp add: Let_def sum_length_chars)
  qed
qed

lemma reconstruct_snoc:
  "docs \<noteq> [] \<Longrightarrow> reconstruct overlap (docs @ [c]) = reconstruct overlap docs @ drop overlap c"
  by (cases docs) (simp_all add: reconstruct_def)

lemma reconstruct_single: "reconstruct overlap [c] = c"
  by (simp add: reconstruct_def)

lemma reconstruct_grow:
  "docs \<noteq> [] \<longrightarrow> overlap \<le> length cur \<Longrightarrow>
   reconstruct overlap (docs @ [cur @ [x]]) = reconstruct overlap (docs @ [cur]) @ [x]"
  by (cases "docs = []") (simp_all add: reconstruct_snoc reconstruct_single)

lemma merge_loop_chars:
  "cur \<noteq> [] \<Longrightarrow> length cur \<le> chunkSize \<Longrightarrow> chunkOverlap < chunkSize \<Longrightarrow>
   docs \<noteq> [] \<longrightarrow> chunkOverlap \<le> length cur \<Longrightarrow>
   \<forall>c \<in> set cur. \<not> is_space c \<Longrightarrow> \<forall>c \<in> set rest. \<not> is_space c \<Longrightarrow>
   reconstruct chunkOverlap
     (merge_loop chunkSize chunkOverlap '''' (map (\<lambda>c. [c]) rest) docs (map (\<lambda>c. [c]) cur)) =
   reconstruct chunkOverlap (docs @ [cur]) @ rest"
proof (induction rest arbitrary: docs cur)
  case Nil
  then show ?case
    by (simp add: joinDocs_chars)
next
  case (Cons x rest)
  from Cons.prems(6) have x: "\<not> is_space x" and rest: "\<forall>c \<in> set rest. \<not> is_space c"
    by simp_all
  show ?case
  proof (cases "length cur = chunkSize")
    case True
    let ?kept = "drop (length cur - chunkOverlap) cur"
    have kept_length: "length ?kept = chunkOverlap"
      using True Cons.prems(3) by simp
    have step: "merge_loop chunkSize chunkOverlap '''' (map (\<lambda>c. [c]) (x # rest)) docs
             (map (\<lambda>c. [c]) cur) =
          merge_loop chunkSize chunkOverlap '''' (map (\<lambda>c. [c]) rest) (docs @ [cur])
             (map (\<lambda>c. [c]) (?kept @ [x]))"
      using True Cons.prems(1,5) shift_docs_chars [OF Cons.prems(3,2)]
      by (simp add: Let_def sum_length_chars joinDocs_chars)
    have clean: "\<forall>c \<in> set (?kept @ [x]). \<not> is_space c"
      using Cons.prems(5) x by (auto dest: in_set_dropD)
    have "reconstruct chunkOverlap
            (merge_loop chunkSize chunkOverlap '''' (map (\<lambda>c. [c]) rest) (docs @ [cur])
               (map (\<lambda>c. [c]) (?kept @ [x]))) =
          reconstruct chunkOverlap ((docs @ [cur]) @ [?kept @ [x]]) @ rest"
      using kept_length Cons.prems(3) clean rest
      by (intro Cons.IH) simp_all
    also have "reconstruct chunkOverlap ((docs @ [cur]) @ [?kept @ [x]]) =
               reconstruct chunkOverlap (docs @ [cur]) @ drop chunkOverlap (?kept @ [x])"
      by (rule reconstruct_snoc) simp
    also have "drop chunkOverlap (?kept @ [x]) = [x]"
      using kept_length by simp
    finally show ?thesis
      using step by simp
  next
    case False
    with Cons.prems(2) have less: "length cur < chunkSize"
      by simp
    have step: "merge_loop chunkSize chunkOverlap '''' (map (\<lambda>c. [c]) (x # rest)) docs
             (map (\<lambda>c. [c]) cur) =
          merge_loop chunkSize chunkOverlap '''' (map (\<lambda>c. [c]) rest) docs
             (map (\<lambda>c. [c]) (cur @ [x]))"
      using less by (simp add: Let_def sum_length_chars)
    have clean: "\<forall>c \<in> set (cur @ [x]). \<not> is_space c"
      using Cons.prems(5) x by auto
    have "reconstruct chunkOverlap
            (merge_loop chunkSize chunkOverlap '''' (map (\<lambda>c. [c]) rest) docs
               (map (\<lambda>c. [c]) (cur @ [x]))) =
          reconstruct chunkOverlap (docs @ [cur @ [x]]) @ rest"
      using less Cons.prems(3,4) clean rest
      by (intro Cons.IH) auto
    also have "reconstruct chunkOverlap (docs @ [cur @ [x]]) =
               reconstruct chunkOverlap (docs @ [cur]) @ [x]"
      using Cons.prems(4) by (rule reconstruct_grow)
    finally show ?thesis
      using step by simp
  qed
qed

lemma mergeSplits_chars:
  assumes "chunkOverlap < chunkSize" and "\<forall>c \<in> set t. \<not> is_space c"
  shows "reconstruct chunkOverlap (mergeSplits chunkSize chunkOverlap (map (\<lambda>c. [c]) t) '''') = t"
proof (cases t)
  case Nil
  then show ?thesis
    by (simp add: mergeSplits_def joinDocs_empty_sep trim_def reconstruct_def)
next
  case (Cons x rest)
  have "merge_loop chunkSize chunkOverlap '''' (map (\<lambda>c. [c]) (x # rest)) [] [] =
        merge_loop chunkSize chunkOverlap '''' (map (\<lambda>c. [c]) rest) [] (map (\<lambda>c. [c]) [x])"
    by (simp add: Let_def)
  moreover have "reconstruct chunkOverlap
      (merge_loop chunkSize chunkOverlap '''' (map (\<lambda>c. [c]) rest) [] (map (\<lambda>c. [c]) [x])) =
      reconstruct chunkOverlap ([] @ [[x]]) @ rest"
    using assms Cons by (intro merge_loop_chars) auto
  ultimately show ?thesis
    using Cons by (simp add: mergeSplits_def reconstruct_single)
qed

lemma split_loop_single_chars:
  "split_loop (Suc 0) chunkOverlap (\<lambda>s. [s]) (map (\<lambda>c. [c]) t) [] = map (\<lambda>c. [c]) t"
  by (induction t) simp_all

lemma split_loop_chars:
  assumes "chunkOverlap < chunkSize" and "\<forall>c \<in> set t. \<not> is_space c"
  shows "reconstruct chunkOverlap
           (split_loop chunkSize chunkOverlap (\<lambda>s. [s]) (map (\<lambda>c. [c]) t) []) = t"
proof (cases "chunkSize = Suc 0")
  case True
  with assms(1) have "chunkOverlap = 0" by simp
  with True show ?thesis
    by (cases t) (simp_all add: split_loop_single_chars reconstruct_def concat_chars comp_def)
next
  case False
  with assms(1) have "\<forall>s \<in> set (map (\<lambda>c. [c]) t). length s < chunkSize"
    by auto
  from split_loop_all_good [OF this, of chunkOverlap "\<lambda>s. [s]" "[]"]
    mergeSplits_chars [OF assms]
  show ?thesis
    by (cases t) (simp_all add: reconstruct_def)
qed

lemma splitText_rec_chars:
  assumes "\<forall>c \<in> set t. \<not> is_space c"
  shows "splitText_rec chunkSize chunkOverlap separators t =
         split_loop chunkSize chunkOverlap (\<lambda>s. [s]) (map (\<lambda>c. [c]) t) []"
proof -
  have "is_space (CHR 0x0A)" and "is_space CHR '' ''"
    by (simp_all add: is_space_def)
  with assms have "CHR 0x0A \<notin> set t" and "CHR '' '' \<notin> set t"
    by blast+
  then show ?thesis
    by (simp add: separators_def not_includes_absent splitOnSeparator_chars)
qed

lemma merge_loop_prefix:
  "sum_list (map length currentDoc) + sum_list (map length fitting) \<le> chunkSize \<Longrightarrow>
   merge_loop chunkSize chunkOverlap '''' (fitting @ splits) docs currentDoc =
   merge_loop chunkSize chunkOverlap '''' splits docs (currentDoc @ fitting)"
proof (induction fitting arbitrary: currentDoc)
  case Nil
  then show ?case by simp
next
  case (Cons d fitting)
  then have "\<not> chunkSize < sum_list (map length currentDoc) + length d"
    by simp
  then have "merge_loop chunkSize chunkOverlap '''' ((d # fitting) @ splits) docs currentDoc =
             merge_loop chunkSize chunkOverlap '''' (fitting @ splits) docs (currentDoc @ [d])"
    by (simp add: Let_def)
  also have "\<dots> = merge_loop chunkSize chunkOverlap '''' splits docs ((currentDoc @ [d]) @ fitting)"
    using Cons.prems by (intro Cons.IH) simp
  finally show ?case by simp
qed

lemma one_character_too_many:
  assumes size: "length a = chunkSize" "1 < chunkSize" "chunkOverlap < chunkSize"
    and clean: "\<forall>c \<in> set a. \<not> is_space c" "\<not> is_space x"
  shows "splitText_rec chunkSize chunkOverlap separators (a @ [x]) =
           [a, drop (chunkSize - chunkOverlap) a @ [x]]"
proof -
  let ?kept = "drop (chunkSize - chunkOverlap) a"
  from size have a: "a \<noteq> []"
    by auto
  have all: "\<forall>c \<in> set (a @ [x]). \<not> is_space c"
    using clean by simp
  have good: "\<forall>s \<in> set (map (\<lambda>c. [c]) (a @ [x])). length s < chunkSize"
    using size(2) by auto
  have "splitText_rec chunkSize chunkOverlap separators (a @ [x]) =
        split_loop chunkSize chunkOverlap (\<lambda>s. [s]) (map (\<lambda>c. [c]) (a @ [x])) []"
    using all by (rule splitText_rec_chars)
  also have "\<dots> = merge_loop chunkSize chunkOverlap '''' (map (\<lambda>c. [c]) a @ [[x]]) [] []"
    using split_loop_all_good [OF good, of chunkOverlap "\<lambda>s. [s]" "[]"]
    by (simp add: mergeSplits_def)
  also have "\<dots> = merge_loop chunkSize chunkOverlap '''' [[x]] [] ([] @ map (\<lambda>c. [c]) a)"
    using size(1) by (intro merge_loop_prefix) (simp add: sum_length_chars)
  also have "\<dots> = merge_loop chunkSize chunkOverlap '''' [] [a] (map (\<lambda>c. [c]) (?kept @ [x]))"
    using size(1) a clean(1) shift_docs_chars [OF size(3), of a]
    by (simp add: Let_def sum_length_chars joinDocs_chars)
  also have "\<dots> = [a, ?kept @ [x]]"
    using clean by (subst merge_loop.simps, subst joinDocs_chars) (auto dest: in_set_dropD)
  finally show ?thesis .
qed

subsection \<open>Reconstruction of the text from its chunks\<close>

text \<open>
  Claim C2: for every text and every valid chunk size and overlap, the chunks, each but the
  first without its leading \<open>overlap\<close> characters, put together give the text back. This
  fails as soon as the text is cut at a space, as the cleaned text of a page is: the chunks
  are trimmed, and they overlap by whole pieces only. Of 256 times \<open>a\<close>, a space and 256
  times \<open>b\<close> (513 characters, the pieces are the \<open>a\<close>s and the space with the \<open>b\<close>s) the
  splitter of the script makes the two chunks of the \<open>a\<close>s and of the \<open>b\<close>s: the second one
  holds nothing of the first, and without its leading 100 characters the space and 100 of
  the \<open>b\<close>s are lost.
\<close>

theorem reconstruction_loses_text:
  "splitter (replicate 256 CHR ''a'' @ '' '' @ replicate 256 CHR ''b'')
     = [replicate 256 CHR ''a'', replicate 256 CHR ''b'']
   \<and> reconstruct 100 (splitter (replicate 256 CHR ''a'' @ '' '' @ replicate 256 CHR ''b''))
     = replicate 256 CHR ''a'' @ replicate 156 CHR ''b''
   \<and> reconstruct 100 (splitter (replicate 256 CHR ''a'' @ '' '' @ replicate 256 CHR ''b''))
     \<noteq> replicate 256 CHR ''a'' @ '' '' @ replicate 256 CHR ''b''"
proof -
  let ?t = "replicate 256 CHR ''a'' @ '' '' @ replicate 256 CHR ''b''"
  have chunks: "splitter ?t = [replicate 256 CHR ''a'', replicate 256 CHR ''b'']"
    by code_simp
  then have short: "reconstruct 100 (splitter ?t) =
      replicate 256 CHR ''a'' @ replicate 156 CHR ''b''"
    by (simp add: reconstruct_def)
  have "reconstruct 100 (splitter ?t) \<noteq> ?t"
  proof
    assume same: "reconstruct 100 (splitter ?t) = ?t"
    have "412 = length (reconstruct 100 (splitter ?t))"
      by (simp only: short) simp
    also have "\<dots> = length ?t"
      by (simp only: same)
    also have "\<dots> = 513"
      by simp
    finally show False by simp
  qed
  with chunks short show ?thesis
    by (simp only: simp_thms)
qed

text \<open>
  Claim C2, amended: for every valid chunk size and overlap (the overlap is less than the
  chunk size), the chunks, each but the first without its leading \<open>overlap\<close> characters,
  put together give the text back when the text holds no whitespace, and when the text is
  shorter than the chunk size and neither starts nor ends with whitespace.
\<close>

theorem split_reconstruction:
  "chunkOverlap < chunkSize \<Longrightarrow>
     ((\<forall>c \<in> set text. \<not> is_space c)
        \<longrightarrow> reconstruct chunkOverlap (splitText_rec chunkSize chunkOverlap separators text) = text)
   \<and> (length text < chunkSize \<and> trim text = text
        \<longrightarrow> reconstruct chunkOverlap (splitText_rec chunkSize chunkOverlap separators text) = text)"
proof (intro conjI impI)
  assume "chunkOverlap < chunkSize" and "\<forall>c \<in> set text. \<not> is_space c"
  then show "reconstruct chunkOverlap (splitText_rec chunkSize chunkOverlap separators text) = text"
    by (simp add: splitText_rec_chars split_loop_chars)
next
  assume "length text < chunkSize \<and> trim text = text"
  then show "reconstruct chunkOverlap (splitText_rec chunkSize chunkOverlap separators text) = text"
    by (simp add: splitText_rec_short reconstruct_def)
qed

theorem split_reconstruction_witness:
  "list_all (\<lambda>c. \<not> is_space c) ''abcdefghij'' \<and> (1::nat) < 4
   \<and> splitText_rec 4 1 separators ''abcdefghij'' = [''abcd'', ''defg'', ''ghij'']
   \<and> reconstruct 1 [''abcd'', ''defg'', ''ghij''] = ''abcdefghij''
   \<and> reconstruct 100 (splitter (replicate 1200 CHR ''x'')) = replicate 1200 CHR ''x''
   \<and> length ''Lewis Hamilton'' < 512 \<and> trim ''Lewis Hamilton'' = ''Lewis Hamilton''
   \<and> reconstruct 100 (splitter ''Lewis Hamilton'') = ''Lewis Hamilton''"
proof -
  have clean: "\<forall>c \<in> set ''abcdefghij''. \<not> is_space c"
    by (simp add: is_space_def)
  have run: "\<forall>c \<in> set (replicate 1200 CHR ''x''). \<not> is_space c"
    by (simp add: is_space_def)
  have trimmed: "trim ''Lewis Hamilton'' = ''Lewis Hamilton''"
    by (simp add: trim_def is_space_def)
  have chunks: "splitText_rec 4 1 separators ''abcdefghij'' = [''abcd'', ''defg'', ''ghij'']"
    by code_simp
  from split_reconstruction [of 1 4 "''abcdefghij''"] clean chunks
  have "reconstruct 1 [''abcd'', ''defg'', ''ghij''] = ''abcdefghij''"
    by simp
  moreover from split_reconstruction [of 100 512 "replicate 1200 CHR ''x''"] run
  have "reconstruct 100 (splitter (replicate 1200 CHR ''x'')) = replicate 1200 CHR ''x''"
    by (simp add: splitter_def)
  moreover from split_reconstruction [of 100 512 "''Lewis Hamilton''"] trimmed
  have "reconstruct 100 (splitter ''Lewis Hamilton'') = ''Lewis Hamilton''"
    by (simp add: splitter_def)
  ultimately show ?thesis
    using clean chunks trimmed by (simp add: list_all_iff)
qed

subsection \<open>The sizes of the chunks\<close>

text \<open>
  Claim C3: every chunk has at most 512 characters, but for a chunk that is one indivisible
  unit longer than 512, which is kept whole; and a text shorter than the chunk size gives
  exactly one chunk, without overlap. The empty text, which is what the cleaning of a page
  without text returns, is shorter than the chunk size and gives no chunk at all; and 513
  times \<open>x\<close>, a unit without a blank line, a line feed or a space in it, is not kept whole
  but cut after its 512th character, the second chunk being the last 100 characters of
  the first and the one left.
\<close>

theorem short_text_without_chunk:
  "length '''' < 512 \<and> splitter '''' = []
   \<and> splitter (replicate 513 CHR ''x'') = [replicate 512 CHR ''x'', replicate 101 CHR ''x'']"
proof -
  have "splitter '''' = []"
    by code_simp
  moreover have "\<not> is_space CHR ''x''"
    by (simp add: is_space_def)
  then have "splitText_rec 512 100 separators (replicate 512 CHR ''x'' @ [CHR ''x'']) =
        [replicate 512 CHR ''x'', drop (512 - 100) (replicate 512 CHR ''x'') @ [CHR ''x'']]"
    by (intro one_character_too_many) simp_all
  then have "splitter (replicate 513 CHR ''x'') =
        [replicate 512 CHR ''x'', replicate 101 CHR ''x'']"
    by (simp add: splitter_def replicate_append_same flip: replicate_Suc)
  ultimately show ?thesis
    by simp
qed

text \<open>
  Claim C3, amended: for every text and every chunk size but 0 (512 in the script), every
  chunk has at most \<open>chunkSize\<close> characters, without exception: the last separator is the
  empty string, so that a unit longer than the chunk size is cut at its characters. A text
  shorter than the chunk size gives exactly one chunk, with no overlap applied, which is
  the text without the whitespace at its ends; when nothing is left of it, as of the empty
  text, it gives no chunk.
\<close>

theorem split_chunk_sizes:
  "0 < chunkSize \<Longrightarrow>
     (\<forall>c \<in> set (splitText_rec chunkSize chunkOverlap separators text). length c \<le> chunkSize)
   \<and> (length text < chunkSize \<longrightarrow>
        splitText_rec chunkSize chunkOverlap separators text =
          (if trim text = '''' then [] else [trim text]))"
  using splitText_rec_bound [of chunkSize separators chunkOverlap "text"]
    splitText_rec_short [of "text" chunkSize chunkOverlap separators]
  by (simp add: separators_def)

theorem split_chunk_sizes_witness:
  "splitText_rec 10 3 separators ''hello world, this is a text''
     = [''hello'', ''world,'', ''this is a'', ''a text'']
   \<and> list_all (\<lambda>c. length c \<le> 10) (splitText_rec 10 3 separators ''hello world, this is a text'')
   \<and> length '' Lewis Hamilton '' < 512
   \<and> splitter '' Lewis Hamilton '' = [''Lewis Hamilton'']
   \<and> list_all (\<lambda>c. length c \<le> 512) (splitter (replicate 513 CHR ''x''))"
proof -
  have chunks: "splitText_rec 10 3 separators ''hello world, this is a text''
     = [''hello'', ''world,'', ''this is a'', ''a text'']"
    by code_simp
  from split_chunk_sizes [of 10 3 "''hello world, this is a text''"]
  have "list_all (\<lambda>c. length c \<le> 10)
          (splitText_rec 10 3 separators ''hello world, this is a text'')"
    by (simp add: list_all_iff)
  moreover from split_chunk_sizes [of 512 100 "'' Lewis Hamilton ''"]
  have "splitter '' Lewis Hamilton '' = [''Lewis Hamilton'']"
    by (simp add: splitter_def trim_def is_space_def)
  moreover from split_chunk_sizes [of 512 100 "replicate 513 CHR ''x''"]
  have "list_all (\<lambda>c. length c \<le> 512) (splitter (replicate 513 CHR ''x''))"
    by (simp add: splitter_def list_all_iff)
  ultimately show ?thesis
    using chunks by simp
qed

end
